theory Spec2Isabelle
  imports Main "HOL-Library.Word" "HOL-Library.List_Lexorder" "HOL-Library.Char_ord"
begin

unbundle bit_operations_syntax

section \<open>Errors and cancellation\<close>

text \<open>
  The Go code reports failures as \<^verbatim>\<open>error\<close> values built from message strings. Each
  message of \<^verbatim>\<open>pool.go\<close> and \<^verbatim>\<open>memory_storage.go\<close> is one constructor here:
  \<^item> \<open>Cancelled\<close>: the value of \<^verbatim>\<open>ctx.Err()\<close> of a context that is already done;
  \<^item> \<open>InvalidCIDR\<close>, \<open>InvalidIP\<close>: \<^verbatim>\<open>net.ParseCIDR\<close> / \<^verbatim>\<open>net.ParseIP\<close> rejected the text;
  \<^item> \<open>InvalidPrefix\<close>: the prefix length of \<^verbatim>\<open>AllocateCIDR\<close> is outside 0..32;
  \<^item> \<open>DuplicateCIDR\<close>, \<open>NotManaged\<close>: the registry already has / does not have the key;
  \<^item> \<open>AddressUnavailable\<close>: the address is not a key of the available map;
  \<^item> \<open>AddressAlreadyAllocated\<close>: the storage message that contains the text the engine
    looks for with \<^verbatim>\<open>strings.Contains\<close> when it tolerates a failed \<^verbatim>\<open>AddIP\<close>;
  \<^item> \<open>NotAllocated\<close>: the address is not a key of the allocated map;
  \<^item> \<open>NoCapacity\<close>, \<open>NoAlignedBlock\<close>, \<open>NoAvailableAddress\<close>: the allocation failures;
  \<^item> \<open>NilDereference\<close>: the run-time panic of using the \<^verbatim>\<open>nil\<close> network that
    \<^verbatim>\<open>AllocateCIDR\<close> would get if its own CIDR text did not parse (the code drops that error);
  \<^item> \<open>IndexOutOfRange\<close>: the run-time panic of \<^verbatim>\<open>parts[1]\<close> on a slice with one element.
\<close>

datatype error =
    Cancelled | InvalidCIDR | InvalidIP | InvalidPrefix | DuplicateCIDR | NotManaged
  | AddressUnavailable | AddressAlreadyAllocated | NotAllocated
  | NoCapacity | NoAlignedBlock | NoAvailableAddress | NilDereference | IndexOutOfRange

text \<open>A context is observed only through \<^verbatim>\<open>ctx.Err()\<close>; within one call it is either
  still live or already done.\<close>

datatype "context" = Live | Done

definition ctx_Err :: "context \<Rightarrow> error option" where
  "ctx_Err ctx = (case ctx of Live \<Rightarrow> None | Done \<Rightarrow> Some Cancelled)"

section \<open>The in-memory storage (memory\_storage.go)\<close>

text \<open>
  \<^verbatim>\<open>available map[string]bool\<close> only ever stores \<^verbatim>\<open>true\<close> and is only ever asked whether a
  key exists, so it is the set of its keys. \<^verbatim>\<open>allocated map[string]string\<close> is a partial map.
  A mutating method returns the error (\<open>None\<close> for \<^verbatim>\<open>nil\<close>) together with the storage as the
  call leaves it.
\<close>

record MemoryIPStorage =
  available :: "string set"
  allocated :: "string \<rightharpoonup> string"

definition NewMemoryIPStorage :: MemoryIPStorage where
  "NewMemoryIPStorage = \<lparr>available = {}, allocated = Map.empty\<rparr>"

definition AddIP :: "context \<Rightarrow> string \<Rightarrow> MemoryIPStorage \<Rightarrow> error option \<times> MemoryIPStorage" where
  "AddIP ctx ip s =
     (case ctx_Err ctx of Some err \<Rightarrow> (Some err, s)
      | None \<Rightarrow>
          if allocated s ip \<noteq> None then (Some AddressAlreadyAllocated, s)
          else (None, s\<lparr>available := insert ip (available s)\<rparr>))"

definition RemoveIP :: "context \<Rightarrow> string \<Rightarrow> MemoryIPStorage \<Rightarrow> error option \<times> MemoryIPStorage" where
  "RemoveIP ctx ip s =
     (case ctx_Err ctx of Some err \<Rightarrow> (Some err, s)
      | None \<Rightarrow>
          if ip \<notin> available s then (Some AddressUnavailable, s)
          else (None, s\<lparr>available := available s - {ip}\<rparr>))"

definition IsIPAvailable :: "context \<Rightarrow> string \<Rightarrow> MemoryIPStorage \<Rightarrow> error + bool" where
  "IsIPAvailable ctx ip s =
     (case ctx_Err ctx of Some err \<Rightarrow> Inl err | None \<Rightarrow> Inr (ip \<in> available s))"

text \<open>\<^verbatim>\<open>sort.Strings\<close> orders strings bytewise, a proper prefix first: the lexicographic
  order of \<open>char list\<close> over the order of characters by their code.\<close>

definition GetAvailableIPs :: "context \<Rightarrow> MemoryIPStorage \<Rightarrow> error + string list" where
  "GetAvailableIPs ctx s =
     (case ctx_Err ctx of Some err \<Rightarrow> Inl err
      | None \<Rightarrow> Inr (sorted_list_of_set (available s)))"

definition AllocateIP_storage ::
  "context \<Rightarrow> string \<Rightarrow> string \<Rightarrow> MemoryIPStorage \<Rightarrow> error option \<times> MemoryIPStorage" where
  "AllocateIP_storage ctx ip description s =
     (case ctx_Err ctx of Some err \<Rightarrow> (Some err, s)
      | None \<Rightarrow>
          if ip \<notin> available s then (Some AddressUnavailable, s)
          else (None, s\<lparr>available := available s - {ip},
                          allocated := (allocated s)(ip \<mapsto> description)\<rparr>))"

definition DeallocateIP :: "context \<Rightarrow> string \<Rightarrow> MemoryIPStorage \<Rightarrow> error option \<times> MemoryIPStorage" where
  "DeallocateIP ctx ip s =
     (case ctx_Err ctx of Some err \<Rightarrow> (Some err, s)
      | None \<Rightarrow>
          if allocated s ip = None then (Some NotAllocated, s)
          else (None, s\<lparr>allocated := (allocated s)(ip := None),
                          available := insert ip (available s)\<rparr>))"

definition GetAllocatedIPs :: "context \<Rightarrow> MemoryIPStorage \<Rightarrow> error + (string \<rightharpoonup> string)" where
  "GetAllocatedIPs ctx s =
     (case ctx_Err ctx of Some err \<Rightarrow> Inl err | None \<Rightarrow> Inr (allocated s))"

definition AvailableCount_storage :: "context \<Rightarrow> MemoryIPStorage \<Rightarrow> error + nat" where
  "AvailableCount_storage ctx s =
     (case ctx_Err ctx of Some err \<Rightarrow> Inl err | None \<Rightarrow> Inr (card (available s)))"

definition AllocatedCount_storage :: "context \<Rightarrow> MemoryIPStorage \<Rightarrow> error + nat" where
  "AllocatedCount_storage ctx s =
     (case ctx_Err ctx of Some err \<Rightarrow> Inl err | None \<Rightarrow> Inr (card (dom (allocated s))))"

text \<open>The mutating calls of the storage contract, as data, and the storage a call leaves.\<close>

datatype storage_op =
    OpAddIP string | OpRemoveIP string | OpAllocateIP string string | OpDeallocateIP string

fun apply_storage_op :: "context \<Rightarrow> storage_op \<Rightarrow> MemoryIPStorage \<Rightarrow> error option \<times> MemoryIPStorage" where
  "apply_storage_op ctx (OpAddIP ip) s = AddIP ctx ip s"
| "apply_storage_op ctx (OpRemoveIP ip) s = RemoveIP ctx ip s"
| "apply_storage_op ctx (OpAllocateIP ip d) s = AllocateIP_storage ctx ip d s"
| "apply_storage_op ctx (OpDeallocateIP ip) s = DeallocateIP ctx ip s"

definition disjoint_sets :: "MemoryIPStorage \<Rightarrow> bool" where
  "disjoint_sets s \<longleftrightarrow> available s \<inter> dom (allocated s) = {}"

section \<open>Address arithmetic\<close>

text \<open>
  \<^verbatim>\<open>net.IP\<close> is a byte slice. Only IPv4 text is modelled (the engine supports 32-bit
  addresses only), so every address here is the 4-byte form that \<^verbatim>\<open>Mask\<close> with a 4-byte
  mask and \<^verbatim>\<open>To4\<close> produce. HOL values are never aliased, so \<open>cloneIP\<close> returns its argument.
\<close>

type_synonym ip = "8 word list"

definition cloneIP :: "ip \<Rightarrow> ip" where
  "cloneIP ip = ip"

text \<open>\<^verbatim>\<open>for i := len(ip) - 1; i >= 0; i-- { ip[i]++; if ip[i] > 0 { break } }\<close>:
  \<open>nextIP_from k\<close> is the loop about to run with \<open>i = k - 1\<close>.\<close>

fun nextIP_from :: "nat \<Rightarrow> ip \<Rightarrow> ip" where
  "nextIP_from 0 ip = ip"
| "nextIP_from (Suc i) ip =
     (let ip' = ip[i := ip ! i + 1]
      in if ip' ! i > 0 then ip' else nextIP_from i ip')"

definition nextIP :: "ip \<Rightarrow> ip" where
  "nextIP ip = nextIP_from (length ip) ip"

text \<open>\<^verbatim>\<open>net.CIDRMask(ones, bits)\<close> for \<open>bits = 32\<close>: full bytes while at least 8 ones
  remain, then one partial byte \<^verbatim>\<open>^byte(0xff >> n)\<close>, then zero bytes.\<close>

fun CIDRMask_bytes :: "nat \<Rightarrow> nat \<Rightarrow> 8 word list" where
  "CIDRMask_bytes 0 n = []"
| "CIDRMask_bytes (Suc l) n =
     (if n \<ge> 8 then 255 # CIDRMask_bytes l (n - 8)
      else NOT (drop_bit n 255) # CIDRMask_bytes l 0)"

definition CIDRMask :: "nat \<Rightarrow> nat \<Rightarrow> 8 word list" where
  "CIDRMask ones bits =
     (if bits \<noteq> 32 \<or> ones > bits then [] else CIDRMask_bytes (bits div 8) ones)"

text \<open>\<^verbatim>\<open>ip.Mask(mask)\<close>: \<^verbatim>\<open>nil\<close> when the lengths differ, else the bytewise AND.\<close>

definition IP_Mask :: "ip \<Rightarrow> 8 word list \<Rightarrow> ip" where
  "IP_Mask ip msk =
     (if length ip \<noteq> length msk then [] else map2 (\<lambda>a m. a AND m) ip msk)"

record IPNet =
  net_IP :: ip
  net_Mask :: "8 word list"

text \<open>\<^verbatim>\<open>ipNet.Contains(ip)\<close>: same length and \<^verbatim>\<open>nn[i] & m[i] == ip[i] & m[i]\<close> for every byte.\<close>

definition Contains :: "IPNet \<Rightarrow> ip \<Rightarrow> bool" where
  "Contains n ip \<longleftrightarrow>
     length ip = length (net_IP n) \<and> length (net_Mask n) = length (net_IP n) \<and>
     map2 (\<lambda>a m. a AND m) (net_IP n) (net_Mask n) = map2 (\<lambda>a m. a AND m) ip (net_Mask n)"

section \<open>Text forms of addresses and blocks\<close>

definition is_digit :: "char \<Rightarrow> bool" where
  "is_digit c \<longleftrightarrow> 48 \<le> (of_char c :: nat) \<and> (of_char c :: nat) \<le> 57"

definition digit_val :: "char \<Rightarrow> nat" where
  "digit_val c = of_char c - 48"

definition digit_char :: "nat \<Rightarrow> char" where
  "digit_char n = char_of (48 + n)"

text \<open>The decimal text of one byte, as \<^verbatim>\<open>ip.String()\<close> writes it: no leading zeros.\<close>

definition appendDecimal :: "8 word \<Rightarrow> string" where
  "appendDecimal x =
     (let n = unat x
      in (if n \<ge> 100 then [digit_char (n div 100)] else []) @
         (if n \<ge> 10 then [digit_char (n div 10 mod 10)] else []) @
         [digit_char (n mod 10)])"

definition hex_char :: "nat \<Rightarrow> char" where
  "hex_char n = (if n < 10 then char_of (48 + n) else char_of (87 + n))"

definition hexString :: "8 word list \<Rightarrow> string" where
  "hexString bs = concat (map (\<lambda>b. [hex_char (unat b div 16), hex_char (unat b mod 16)]) bs)"

text \<open>\<^verbatim>\<open>ip.String()\<close>: dotted decimal for four bytes. The other two equations are Go's
  answers for an empty slice and for a slice of an unsupported length.\<close>

fun IP_String :: "ip \<Rightarrow> string" where
  "IP_String [a, b, c, d] =
     appendDecimal a @ ''.'' @ appendDecimal b @ ''.'' @ appendDecimal c @ ''.'' @ appendDecimal d"
| "IP_String [] = ''<nil>''"
| "IP_String bs = ''?'' @ hexString bs"

text \<open>
  The IPv4 parser of \<^verbatim>\<open>net/netip\<close> (Go 1.21, the version of \<^verbatim>\<open>go.mod\<close>), one character at
  a time: the text left, \<^verbatim>\<open>val\<close>, \<^verbatim>\<open>digLen\<close> and the \<^verbatim>\<open>fields\<close> read so far (\<^verbatim>\<open>pos\<close> is their
  number). A dot is refused at the start, at the end and after a dot; \<open>digLen = 0\<close> holds
  exactly at the start and after a dot.
\<close>

fun parseIPv4_loop :: "string \<Rightarrow> nat \<Rightarrow> nat \<Rightarrow> 8 word list \<Rightarrow> ip option" where
  "parseIPv4_loop [] val digLen octets =
     (if length octets < 3 then None else Some (octets @ [of_nat val]))"
| "parseIPv4_loop (c # cs) val digLen octets =
     (if is_digit c then
        (if digLen = 1 \<and> val = 0 then None
         else let val' = val * 10 + digit_val c
              in if val' > 255 then None else parseIPv4_loop cs val' (digLen + 1) octets)
      else if c = CHR ''.'' then
        (if digLen = 0 \<or> cs = [] then None
         else if length octets = 3 then None
         else parseIPv4_loop cs 0 0 (octets @ [of_nat val]))
      else None)"

definition parseIPv4 :: "string \<Rightarrow> ip option" where
  "parseIPv4 s = parseIPv4_loop s 0 0 []"

text \<open>\<^verbatim>\<open>netip.ParseAddr\<close> looks for the first of \<^verbatim>\<open>. : %\<close>. Text whose first such
  character is a colon is IPv6 text, which is outside this model: it is refused here.\<close>

fun ParseAddr_scan :: "string \<Rightarrow> string \<Rightarrow> ip option" where
  "ParseAddr_scan [] s = None"
| "ParseAddr_scan (c # cs) s =
     (if c = CHR ''.'' then parseIPv4 s
      else if c = CHR '':'' then None
      else if c = CHR ''%'' then None
      else ParseAddr_scan cs s)"

definition ParseIP :: "string \<Rightarrow> ip option" where
  "ParseIP s = ParseAddr_scan s s"

text \<open>\<^verbatim>\<open>dtoi\<close> of package \<^verbatim>\<open>net\<close>: the leading decimal digits, their count, and whether
  there was at least one digit and the value stayed below \<^verbatim>\<open>0xFFFFFF\<close>.\<close>

fun dtoi_loop :: "string \<Rightarrow> int \<Rightarrow> nat \<Rightarrow> int \<times> nat \<times> bool" where
  "dtoi_loop [] n i = (if i = 0 then (0, 0, False) else (n, i, True))"
| "dtoi_loop (c # cs) n i =
     (if is_digit c then
        (let n' = n * 10 + int (digit_val c)
         in if n' \<ge> 16777215 then (16777215, i, False) else dtoi_loop cs n' (i + 1))
      else if i = 0 then (0, 0, False) else (n, i, True))"

definition dtoi :: "string \<Rightarrow> int \<times> nat \<times> bool" where
  "dtoi s = dtoi_loop s 0 0"

text \<open>\<^verbatim>\<open>net.ParseCIDR\<close>: the text before the first slash is the address, the text after it
  the prefix length; the network is the masked address with its mask.\<close>

definition ParseCIDR :: "string \<Rightarrow> (ip \<times> IPNet) option" where
  "ParseCIDR s =
     (if CHR ''/'' \<notin> set s then None
      else
        let addr = takeWhile (\<lambda>c. c \<noteq> CHR ''/'') s;
            msk = drop (Suc (length addr)) s
        in (case ParseIP addr of
              None \<Rightarrow> None
            | Some ipAddr \<Rightarrow>
                (case dtoi msk of
                   (n, i, ok) \<Rightarrow>
                     if \<not> ok \<or> i \<noteq> length msk \<or> n < 0 \<or> n > 32 then None
                     else let m = CIDRMask (nat n) 32
                          in Some (ipAddr, \<lparr>net_IP = IP_Mask ipAddr m, net_Mask = m\<rparr>))))"

text \<open>\<^verbatim>\<open>%d\<close> of \<^verbatim>\<open>fmt.Sprintf\<close>.\<close>

fun dec_nat :: "nat \<Rightarrow> string" where
  "dec_nat n = (if n < 10 then [digit_char n] else dec_nat (n div 10) @ [digit_char (n mod 10)])"

definition Itoa :: "int \<Rightarrow> string" where
  "Itoa i = (if i < 0 then CHR ''-'' # dec_nat (nat (- i)) else dec_nat (nat i))"

text \<open>\<^verbatim>\<open>strings.Contains\<close> and \<^verbatim>\<open>strings.SplitN(s, sep, 2)\<close>: the split is at the first
  place where the separator starts.\<close>

fun strings_Contains :: "string \<Rightarrow> string \<Rightarrow> bool" where
  "strings_Contains [] sep = (sep = [])"
| "strings_Contains (c # cs) sep =
     (if take (length sep) (c # cs) = sep then True else strings_Contains cs sep)"

fun strings_SplitN2 :: "string \<Rightarrow> string \<Rightarrow> string list" where
  "strings_SplitN2 [] sep = [[]]"
| "strings_SplitN2 (c # cs) sep =
     (if take (length sep) (c # cs) = sep then [[], drop (length sep) (c # cs)]
      else (case strings_SplitN2 cs sep of
              [a, b] \<Rightarrow> [c # a, b]
            | _ \<Rightarrow> [c # cs]))"

section \<open>The allocation engine (pool.go)\<close>

text \<open>The engine is modelled over the in-memory storage. The locks of the Go code order
  concurrent calls; one call at a time is what is modelled here. A call that may walk a block
  without end returns an \<open>option\<close>: \<open>None\<close> is the call that never returns. The two
  descriptions that the Go code writes in Chinese (for an initial CIDR and for an expanded
  one) are written in English.\<close>

record CIDRInfo =
  CIDR :: string
  Description :: string
  IPNet :: IPNet

record CIDRGuardian =
  storage :: MemoryIPStorage
  managedCIDRs :: "string \<rightharpoonup> CIDRInfo"

text \<open>
  \<^verbatim>\<open>for ip := start; ipNet.Contains(ip); nextIP(ip) { body }\<close>, where the body may leave the
  whole function with an error. For a \<^verbatim>\<open>/0\<close> network \<open>Contains\<close> never fails and the Go loop
  does not end: the result is then \<open>None\<close>.
\<close>

partial_function (option) for_block ::
  "IPNet \<Rightarrow> (ip \<Rightarrow> 's \<Rightarrow> error option \<times> 's) \<Rightarrow> ip \<Rightarrow> 's \<Rightarrow> (error option \<times> 's) option" where
  "for_block ipNet body ip s =
     (if Contains ipNet ip then
        (case body ip s of
           (Some err, s') \<Rightarrow> Some (Some err, s')
         | (None, s') \<Rightarrow> for_block ipNet body (nextIP ip) s')
      else Some (None, s))"

definition network_start :: "IPNet \<Rightarrow> ip" where
  "network_start ipNet = cloneIP (IP_Mask (net_IP ipNet) (net_Mask ipNet))"

subsection \<open>AddCIDR\<close>

fun rollback_added :: "context \<Rightarrow> string list \<Rightarrow> MemoryIPStorage \<Rightarrow> MemoryIPStorage" where
  "rollback_added ctx [] st = st"
| "rollback_added ctx (addedIP # rest) st = rollback_added ctx rest (snd (RemoveIP ctx addedIP st))"

fun AddCIDR_addAll ::
  "context \<Rightarrow> ip list \<Rightarrow> string list \<Rightarrow> MemoryIPStorage \<Rightarrow> error option \<times> MemoryIPStorage" where
  "AddCIDR_addAll ctx [] addedIPs st = (None, st)"
| "AddCIDR_addAll ctx (ip # ipList) addedIPs st =
     (case ctx_Err ctx of
        Some err \<Rightarrow> (Some err, rollback_added ctx addedIPs st)
      | None \<Rightarrow>
          let ipStr = IP_String ip
          in (case AddIP ctx ipStr st of
                (Some err, st') \<Rightarrow>
                  if err \<noteq> AddressAlreadyAllocated then (Some err, rollback_added ctx addedIPs st')
                  else AddCIDR_addAll ctx ipList addedIPs st'
              | (None, st') \<Rightarrow> AddCIDR_addAll ctx ipList (addedIPs @ [ipStr]) st'))"

definition AddCIDR ::
  "context \<Rightarrow> string \<Rightarrow> string \<Rightarrow> CIDRGuardian \<Rightarrow> (error option \<times> CIDRGuardian) option" where
  "AddCIDR ctx cidr description g =
     (case ctx_Err ctx of
        Some err \<Rightarrow> Some (Some err, g)
      | None \<Rightarrow>
          (case ParseCIDR cidr of
             None \<Rightarrow> Some (Some InvalidCIDR, g)
           | Some (ip, ipNet) \<Rightarrow>
               if managedCIDRs g cidr \<noteq> None then Some (Some DuplicateCIDR, g)
               else
                 (case for_block ipNet (\<lambda>ip ipList. (None, ipList @ [cloneIP ip]))
                         (cloneIP (IP_Mask ip (net_Mask ipNet))) [] of
                    None \<Rightarrow> None
                  | Some (_, ipList) \<Rightarrow>
                      (case AddCIDR_addAll ctx ipList [] (storage g) of
                         (Some err, st) \<Rightarrow> Some (Some err, g\<lparr>storage := st\<rparr>)
                       | (None, st) \<Rightarrow>
                           Some (None, g\<lparr>storage := st,
                                         managedCIDRs := (managedCIDRs g)(cidr \<mapsto>
                                           \<lparr>CIDR = cidr, Description = description,
                                            IPNet = ipNet\<rparr>)\<rparr>)))))"

text \<open>\<^verbatim>\<open>NewCIDRGuardian\<close> with the default storage.\<close>

fun NewCIDRGuardian_addAll ::
  "context \<Rightarrow> string list \<Rightarrow> CIDRGuardian \<Rightarrow> (error + CIDRGuardian) option" where
  "NewCIDRGuardian_addAll ctx [] g = Some (Inr g)"
| "NewCIDRGuardian_addAll ctx (cidr # rest) g =
     (case AddCIDR ctx cidr ''initial CIDR'' g of
        None \<Rightarrow> None
      | Some (Some err, g') \<Rightarrow> Some (Inl err)
      | Some (None, g') \<Rightarrow> NewCIDRGuardian_addAll ctx rest g')"

definition NewCIDRGuardian :: "context \<Rightarrow> string list \<Rightarrow> (error + CIDRGuardian) option" where
  "NewCIDRGuardian ctx initialCIDRs =
     (case ctx_Err ctx of
        Some err \<Rightarrow> Some (Inl err)
      | None \<Rightarrow>
          NewCIDRGuardian_addAll ctx initialCIDRs
            \<lparr>storage = NewMemoryIPStorage, managedCIDRs = Map.empty\<rparr>)"

subsection \<open>RemoveCIDR\<close>

definition removeCIDR_body :: "context \<Rightarrow> ip \<Rightarrow> MemoryIPStorage \<Rightarrow> error option \<times> MemoryIPStorage" where
  "removeCIDR_body ctx ip st =
     (case ctx_Err ctx of
        Some err \<Rightarrow> (Some err, st)
      | None \<Rightarrow>
          (case IsIPAvailable ctx (IP_String ip) st of
             Inl err \<Rightarrow> (Some err, st)
           | Inr avail \<Rightarrow> if avail then RemoveIP ctx (IP_String ip) st else (None, st)))"

definition removeCIDRWithoutLock ::
  "context \<Rightarrow> string \<Rightarrow> CIDRGuardian \<Rightarrow> (error option \<times> CIDRGuardian) option" where
  "removeCIDRWithoutLock ctx cidr g =
     (case managedCIDRs g cidr of
        None \<Rightarrow> Some (Some NotManaged, g)
      | Some cidrInfo \<Rightarrow>
          (case for_block (IPNet cidrInfo) (removeCIDR_body ctx)
                  (network_start (IPNet cidrInfo)) (storage g) of
             None \<Rightarrow> None
           | Some (Some err, st) \<Rightarrow> Some (Some err, g\<lparr>storage := st\<rparr>)
           | Some (None, st) \<Rightarrow>
               Some (None, g\<lparr>storage := st, managedCIDRs := (managedCIDRs g)(cidr := None)\<rparr>)))"

definition RemoveCIDR ::
  "context \<Rightarrow> string \<Rightarrow> CIDRGuardian \<Rightarrow> (error option \<times> CIDRGuardian) option" where
  "RemoveCIDR ctx cidr g = removeCIDRWithoutLock ctx cidr g"

definition GetManagedCIDRs :: "context \<Rightarrow> CIDRGuardian \<Rightarrow> error + (string \<rightharpoonup> string)" where
  "GetManagedCIDRs ctx g =
     (case ctx_Err ctx of
        Some err \<Rightarrow> Inl err
      | None \<Rightarrow> Inr (\<lambda>cidr. map_option Description (managedCIDRs g cidr)))"

subsection \<open>Single addresses\<close>

definition AddSingleIP :: "context \<Rightarrow> string \<Rightarrow> CIDRGuardian \<Rightarrow> error option \<times> CIDRGuardian" where
  "AddSingleIP ctx ip g =
     (case ParseIP ip of
        None \<Rightarrow> (Some InvalidIP, g)
      | Some parsedIP \<Rightarrow>
          (case ctx_Err ctx of
             Some err \<Rightarrow> (Some err, g)
           | None \<Rightarrow> (case AddIP ctx ip (storage g) of (e, st) \<Rightarrow> (e, g\<lparr>storage := st\<rparr>))))"

definition RemoveSingleIP :: "context \<Rightarrow> string \<Rightarrow> CIDRGuardian \<Rightarrow> error option \<times> CIDRGuardian" where
  "RemoveSingleIP ctx ip g =
     (case ctx_Err ctx of
        Some err \<Rightarrow> (Some err, g)
      | None \<Rightarrow> (case RemoveIP ctx ip (storage g) of (e, st) \<Rightarrow> (e, g\<lparr>storage := st\<rparr>)))"

definition AllocateIP :: "context \<Rightarrow> string \<Rightarrow> string \<Rightarrow> CIDRGuardian \<Rightarrow> error option \<times> CIDRGuardian" where
  "AllocateIP ctx ipStr description g =
     (case AllocateIP_storage ctx ipStr description (storage g) of
        (e, st) \<Rightarrow> (e, g\<lparr>storage := st\<rparr>))"

definition ReleaseIP :: "context \<Rightarrow> string \<Rightarrow> CIDRGuardian \<Rightarrow> error option \<times> CIDRGuardian" where
  "ReleaseIP ctx ipStr g =
     (case DeallocateIP ctx ipStr (storage g) of (e, st) \<Rightarrow> (e, g\<lparr>storage := st\<rparr>))"

definition GetNextAvailableIP ::
  "context \<Rightarrow> string \<Rightarrow> CIDRGuardian \<Rightarrow> (error + string) \<times> CIDRGuardian" where
  "GetNextAvailableIP ctx description g =
     (case GetAvailableIPs ctx (storage g) of
        Inl err \<Rightarrow> (Inl err, g)
      | Inr ips \<Rightarrow>
          (case ips of
             [] \<Rightarrow> (Inl NoAvailableAddress, g)
           | ip # _ \<Rightarrow>
               (case AllocateIP_storage ctx ip description (storage g) of
                  (Some err, st) \<Rightarrow> (Inl err, g\<lparr>storage := st\<rparr>)
                | (None, st) \<Rightarrow> (Inr ip, g\<lparr>storage := st\<rparr>))))"

subsection \<open>ExpandPool\<close>

definition ExpandPool_body :: "context \<Rightarrow> ip \<Rightarrow> MemoryIPStorage \<Rightarrow> error option \<times> MemoryIPStorage" where
  "ExpandPool_body ctx ip st =
     (case ctx_Err ctx of
        Some err \<Rightarrow> (Some err, st)
      | None \<Rightarrow>
          (case GetAllocatedIPs ctx st of
             Inl err \<Rightarrow> (Some err, st)
           | Inr alloc \<Rightarrow>
               if alloc (IP_String ip) = None then AddIP ctx (IP_String ip) st else (None, st)))"

definition ExpandPool ::
  "context \<Rightarrow> string \<Rightarrow> CIDRGuardian \<Rightarrow> (error option \<times> CIDRGuardian) option" where
  "ExpandPool ctx cidr g =
     (case ParseCIDR cidr of
        None \<Rightarrow> Some (Some InvalidCIDR, g)
      | Some (_, newNet) \<Rightarrow>
          (case for_block newNet (ExpandPool_body ctx) (network_start newNet) (storage g) of
             None \<Rightarrow> None
           | Some (Some err, st) \<Rightarrow> Some (Some err, g\<lparr>storage := st\<rparr>)
           | Some (None, st) \<Rightarrow> AddCIDR ctx cidr ''expanded CIDR'' (g\<lparr>storage := st\<rparr>)))"

subsection \<open>AllocateCIDR\<close>

text \<open>Step 7: the address text parses, and masking the address with the \<^verbatim>\<open>/bits\<close> mask
  prints the same text.\<close>

definition is_aligned_start :: "int \<Rightarrow> string \<Rightarrow> bool" where
  "is_aligned_start bits ipStr =
     (case ParseIP ipStr of
        None \<Rightarrow> False
      | Some ip \<Rightarrow> IP_String (cloneIP (IP_Mask ip (CIDRMask (nat bits) 32))) = ipStr)"

text \<open>Steps 10 and 12 walk the block with
  \<^verbatim>\<open>for ip := cloneIP(ipNet.IP); ipNet.Contains(ip) && ipCount < size; nextIP(ip)\<close>;
  the counter bounds both loops.\<close>

function AllocateCIDR_check ::
  "context \<Rightarrow> IPNet \<Rightarrow> nat \<Rightarrow> ip \<Rightarrow> nat \<Rightarrow> MemoryIPStorage \<Rightarrow> error option" where
  "AllocateCIDR_check ctx ipNet sz ip ipCount st =
     (if Contains ipNet ip \<and> ipCount < sz then
        (case IsIPAvailable ctx (IP_String ip) st of
           Inl err \<Rightarrow> Some err
         | Inr avail \<Rightarrow>
             if \<not> avail then Some AddressUnavailable
             else AllocateCIDR_check ctx ipNet sz (nextIP ip) (ipCount + 1) st)
      else None)"
  by pat_completeness auto
termination
  by (relation "measure (\<lambda>(ctx, ipNet, sz, ip, ipCount, st). sz - ipCount)") auto

function AllocateCIDR_remove ::
  "context \<Rightarrow> IPNet \<Rightarrow> nat \<Rightarrow> string \<Rightarrow> ip \<Rightarrow> nat \<Rightarrow> MemoryIPStorage
     \<Rightarrow> error option \<times> MemoryIPStorage" where
  "AllocateCIDR_remove ctx ipNet sz startIP ip ipCount st =
     (if Contains ipNet ip \<and> ipCount < sz then
        (let ipStr = IP_String ip
         in if ipStr \<noteq> startIP then
              (case RemoveIP ctx ipStr st of
                 (Some err, st') \<Rightarrow> (Some err, snd (DeallocateIP ctx startIP st'))
               | (None, st') \<Rightarrow>
                   AllocateCIDR_remove ctx ipNet sz startIP (nextIP ip) (ipCount + 1) st')
            else AllocateCIDR_remove ctx ipNet sz startIP (nextIP ip) (ipCount + 1) st)
      else (None, st))"
  by pat_completeness auto
termination
  by (relation "measure (\<lambda>(ctx, ipNet, sz, startIP, ip, ipCount, st). sz - ipCount)") auto

definition AllocateCIDR ::
  "context \<Rightarrow> int \<Rightarrow> string \<Rightarrow> CIDRGuardian \<Rightarrow> (error + string) \<times> CIDRGuardian" where
  "AllocateCIDR ctx bits description g =
     (case ctx_Err ctx of
        Some err \<Rightarrow> (Inl err, g)
      | None \<Rightarrow>
          if bits < 0 \<or> bits > 32 then (Inl InvalidPrefix, g)
          else
            (case GetAvailableIPs ctx (storage g) of
               Inl err \<Rightarrow> (Inl err, g)
             | Inr availableIPs \<Rightarrow>
                 let sz = (2::nat) ^ nat (32 - bits)
                 in if length availableIPs < sz then (Inl NoCapacity, g)
                    else
                      (case sort (filter (is_aligned_start bits) (sort availableIPs)) of
                         [] \<Rightarrow> (Inl NoAlignedBlock, g)
                       | startIP # _ \<Rightarrow>
                           let cidr = startIP @ ''/'' @ Itoa bits
                           in (case ParseCIDR cidr of
                                 None \<Rightarrow> (Inl NilDereference, g)
                               | Some (_, ipNet) \<Rightarrow>
                                   (case AllocateCIDR_check ctx ipNet sz
                                           (cloneIP (net_IP ipNet)) 0 (storage g) of
                                      Some err \<Rightarrow> (Inl err, g)
                                    | None \<Rightarrow>
                                        (case AllocateIP_storage ctx startIP
                                                (cidr @ '' - '' @ description) (storage g) of
                                           (Some err, st) \<Rightarrow> (Inl err, g\<lparr>storage := st\<rparr>)
                                         | (None, st) \<Rightarrow>
                                             (case AllocateCIDR_remove ctx ipNet sz startIP
                                                     (cloneIP (net_IP ipNet)) 0 st of
                                                (Some err, st') \<Rightarrow> (Inl err, g\<lparr>storage := st'\<rparr>)
                                              | (None, st') \<Rightarrow>
                                                  (Inr cidr, g\<lparr>storage := st'\<rparr>))))))))"

subsection \<open>ReleaseCIDR\<close>

text \<open>\<^verbatim>\<open>for _, cidrInfo := range g.managedCIDRs { if cidrInfo.IPNet.Contains(ip) { ... break } }\<close>:
  some registered block contains the address.\<close>

definition inManagedRange :: "(string \<rightharpoonup> CIDRInfo) \<Rightarrow> ip \<Rightarrow> bool" where
  "inManagedRange managed ip \<longleftrightarrow> (\<exists>cidrInfo \<in> ran managed. Contains (IPNet cidrInfo) ip)"

text \<open>The body of the walk: \<open>managed\<close> is the registry and \<open>alloc\<close> the map of allocated
  addresses fetched once before the walk.\<close>

definition ReleaseCIDR_body ::
  "context \<Rightarrow> (string \<rightharpoonup> CIDRInfo) \<Rightarrow> (string \<rightharpoonup> string) \<Rightarrow> ip \<Rightarrow> MemoryIPStorage
     \<Rightarrow> error option \<times> MemoryIPStorage" where
  "ReleaseCIDR_body ctx managed alloc ip st =
     (case ctx_Err ctx of
        Some err \<Rightarrow> (Some err, st)
      | None \<Rightarrow>
          let ipStr = IP_String ip
          in if inManagedRange managed ip then
               (if alloc ipStr = None then
                  (case AddIP ctx ipStr st of
                     (Some err, st') \<Rightarrow>
                       if err \<noteq> AddressAlreadyAllocated then (Some err, st') else (None, st')
                   | (None, st') \<Rightarrow> (None, st'))
                else (None, st))
             else (None, st))"

definition ReleaseCIDR ::
  "context \<Rightarrow> string \<Rightarrow> CIDRGuardian \<Rightarrow> (error option \<times> CIDRGuardian) option" where
  "ReleaseCIDR ctx cidr g =
     (case ctx_Err ctx of
        Some err \<Rightarrow> Some (Some err, g)
      | None \<Rightarrow>
          (case ParseCIDR cidr of
             None \<Rightarrow> Some (Some InvalidCIDR, g)
           | Some (_, ipNet) \<Rightarrow>
               let networkAddr = IP_String (IP_Mask (net_IP ipNet) (net_Mask ipNet))
               in (case GetAllocatedIPs ctx (storage g) of
                     Inl err \<Rightarrow> Some (Some err, g)
                   | Inr alloc \<Rightarrow>
                       if alloc networkAddr = None then Some (Some NotAllocated, g)
                       else
                         (case for_block ipNet (ReleaseCIDR_body ctx (managedCIDRs g) alloc)
                                 (network_start ipNet) (storage g) of
                            None \<Rightarrow> None
                          | Some (Some err, st) \<Rightarrow> Some (Some err, g\<lparr>storage := st\<rparr>)
                          | Some (None, st) \<Rightarrow>
                              (case DeallocateIP ctx networkAddr st of
                                 (e, st') \<Rightarrow> Some (e, g\<lparr>storage := st'\<rparr>))))))"

subsection \<open>Reports\<close>

text \<open>\<^verbatim>\<open>String\<close>, which only formats the results of the reports below, is not modelled.\<close>

fun GetAvailableCIDRs_range :: "context \<Rightarrow> string list \<Rightarrow> string set \<Rightarrow> error + string set" where
  "GetAvailableCIDRs_range ctx [] cidrs = Inr cidrs"
| "GetAvailableCIDRs_range ctx (ipStr # rest) cidrs =
     (case ctx_Err ctx of
        Some err \<Rightarrow> Inl err
      | None \<Rightarrow>
          (case ParseIP ipStr of
             None \<Rightarrow> GetAvailableCIDRs_range ctx rest cidrs
           | Some ip \<Rightarrow>
               GetAvailableCIDRs_range ctx rest
                 (insert (IP_String (IP_Mask ip (CIDRMask 24 32)) @ ''/24'') cidrs)))"

definition GetAvailableCIDRs :: "context \<Rightarrow> CIDRGuardian \<Rightarrow> error + string list" where
  "GetAvailableCIDRs ctx g =
     (case ctx_Err ctx of
        Some err \<Rightarrow> Inl err
      | None \<Rightarrow>
          (case GetAvailableIPs ctx (storage g) of
             Inl err \<Rightarrow> Inl err
           | Inr availableIPs \<Rightarrow>
               if availableIPs = [] then Inr []
               else (case GetAvailableCIDRs_range ctx availableIPs {} of
                       Inl err \<Rightarrow> Inl err
                     | Inr cidrs \<Rightarrow> Inr (sorted_list_of_set cidrs))))"

text \<open>
  \<^verbatim>\<open>for _, desc := range allocated\<close>: Go visits the entries of a map in an order it does not
  specify, and a later entry with the same CIDR text overwrites an earlier one. The walk is
  over the descriptions in the order of one run.
\<close>

fun GetUsedCIDRs_range ::
  "context \<Rightarrow> string list \<Rightarrow> (string \<rightharpoonup> string) \<Rightarrow> error + (string \<rightharpoonup> string)" where
  "GetUsedCIDRs_range ctx [] result = Inr result"
| "GetUsedCIDRs_range ctx (desc # rest) result =
     (case ctx_Err ctx of
        Some err \<Rightarrow> Inl err
      | None \<Rightarrow>
          if strings_Contains desc '' - '' then
            (case strings_SplitN2 desc '' - '' of
               cidr # description # _ \<Rightarrow>
                 GetUsedCIDRs_range ctx rest (result(cidr \<mapsto> description))
             | _ \<Rightarrow> Inl IndexOutOfRange)
          else GetUsedCIDRs_range ctx rest result)"

text \<open>\<open>order\<close> lists the keys of the allocated map in the order in which this run of
  \<^verbatim>\<open>range\<close> visits them.\<close>

definition GetUsedCIDRs ::
  "context \<Rightarrow> string list \<Rightarrow> CIDRGuardian \<Rightarrow> error + (string \<rightharpoonup> string)" where
  "GetUsedCIDRs ctx order g =
     (case ctx_Err ctx of
        Some err \<Rightarrow> Inl err
      | None \<Rightarrow>
          (case GetAllocatedIPs ctx (storage g) of
             Inl err \<Rightarrow> Inl err
           | Inr alloc \<Rightarrow> GetUsedCIDRs_range ctx (List.map_filter alloc order) Map.empty))"

definition AvailableCount :: "context \<Rightarrow> CIDRGuardian \<Rightarrow> error + nat" where
  "AvailableCount ctx g =
     (case ctx_Err ctx of Some err \<Rightarrow> Inl err | None \<Rightarrow> AvailableCount_storage ctx (storage g))"

definition AllocatedCount :: "context \<Rightarrow> CIDRGuardian \<Rightarrow> error + nat" where
  "AllocatedCount ctx g =
     (case ctx_Err ctx of Some err \<Rightarrow> Inl err | None \<Rightarrow> AllocatedCount_storage ctx (storage g))"

section \<open>The numeric view of addresses and blocks\<close>

text \<open>The big-endian value of a byte slice, the four bytes of a value, and the walk of a
  list of addresses by a loop body that may stop with an error. They are used to state what
  the loops of the engine compute.\<close>

fun ip_val :: "ip \<Rightarrow> nat" where
  "ip_val [] = 0"
| "ip_val (a # as) = unat a * 256 ^ length as + ip_val as"

definition ip_of_val :: "nat \<Rightarrow> ip" where
  "ip_of_val v = [of_nat (v div 2 ^ 24), of_nat (v div 2 ^ 16), of_nat (v div 2 ^ 8), of_nat v]"

fun fold_ips :: "(ip \<Rightarrow> 's \<Rightarrow> error option \<times> 's) \<Rightarrow> ip list \<Rightarrow> 's \<Rightarrow> error option \<times> 's" where
  "fold_ips body [] s = (None, s)"
| "fold_ips body (ip # ips) s =
     (case body ip s of
        (Some err, s') \<Rightarrow> (Some err, s')
      | (None, s') \<Rightarrow> fold_ips body ips s')"

text \<open>The addresses of the block of \<open>n\<close> addresses that starts at \<open>start\<close>, ascending, and
  their text forms.\<close>

definition block_ips :: "ip \<Rightarrow> nat \<Rightarrow> ip list" where
  "block_ips start n = map ip_of_val [ip_val start ..< ip_val start + n]"

definition block_strings :: "ip \<Rightarrow> nat \<Rightarrow> string set" where
  "block_strings start n = IP_String ` set (block_ips start n)"

definition all_digits :: "string \<Rightarrow> bool" where
  "all_digits s \<longleftrightarrow> (\<forall>c \<in> set s. is_digit c)"

declare dec_nat.simps [simp del]


text \<open>The engine that manages exactly \<open>192.168.0.0/24\<close>, all 256 addresses available:
  what \<^verbatim>\<open>NewCIDRGuardian(ctx, nil, "192.168.0.0/24")\<close> builds.\<close>

definition pool_24 :: CIDRGuardian where
  "pool_24 =
     \<lparr>storage = \<lparr>available = block_strings [192, 168, 0, 0] 256, allocated = Map.empty\<rparr>,
      managedCIDRs = [''192.168.0.0/24'' \<mapsto>
        \<lparr>CIDR = ''192.168.0.0/24'', Description = ''initial CIDR'',
         IPNet = \<lparr>net_IP = [192, 168, 0, 0], net_Mask = CIDRMask 24 32\<rparr>\<rparr>]\<rparr>"

section \<open>Properties of the in-memory storage\<close>

lemmas storage_defs = AddIP_def RemoveIP_def AllocateIP_storage_def DeallocateIP_def ctx_Err_def

text \<open>
  Claim C8. Every mutating call of the in-memory storage keeps the available set and the
  keys of the allocated map disjoint. \<open>AddIP\<close> and \<open>RemoveIP\<close> leave the allocated map as it
  was. An address that was available before the call and is allocated after it was moved by
  a successful \<open>AllocateIP\<close> of that address; an address that was allocated before and is
  available after was moved by a successful \<open>DeallocateIP\<close> of that address; nothing becomes
  allocated that was not available; a failed call changes nothing.
\<close>

theorem storage_ops_keep_sets_disjoint:
  assumes "disjoint_sets s" and "apply_storage_op ctx opn s = (e, s')"
  shows "disjoint_sets s'
    \<and> ((\<exists>ip. opn = OpAddIP ip \<or> opn = OpRemoveIP ip) \<longrightarrow> allocated s' = allocated s)
    \<and> (\<forall>a. a \<in> available s \<and> a \<in> dom (allocated s')
           \<longrightarrow> (\<exists>d. opn = OpAllocateIP a d) \<and> e = None)
    \<and> (\<forall>a. a \<in> dom (allocated s) \<and> a \<in> available s'
           \<longrightarrow> opn = OpDeallocateIP a \<and> e = None)
    \<and> (\<forall>a. a \<in> dom (allocated s') \<longrightarrow> a \<in> dom (allocated s) \<or> a \<in> available s)
    \<and> (e \<noteq> None \<longrightarrow> s' = s)"
  using assms
  by (cases opn; cases ctx)
     (auto simp: disjoint_sets_def disjoint_iff domIff storage_defs split: if_splits)

theorem storage_ops_keep_sets_disjoint_witness:
  "disjoint_sets \<lparr>available = {''10.0.0.1''}, allocated = Map.empty\<rparr>
   \<and> apply_storage_op Live (OpAllocateIP ''10.0.0.1'' ''web'')
         \<lparr>available = {''10.0.0.1''}, allocated = Map.empty\<rparr>
       = (None, \<lparr>available = {}, allocated = [''10.0.0.1'' \<mapsto> ''web'']\<rparr>)
   \<and> disjoint_sets \<lparr>available = {}, allocated = [''10.0.0.1'' \<mapsto> ''web'']\<rparr>"
proof -
  have d: "disjoint_sets \<lparr>available = {''10.0.0.1''}, allocated = Map.empty\<rparr>"
    by (simp add: disjoint_sets_def)
  have a: "apply_storage_op Live (OpAllocateIP ''10.0.0.1'' ''web'')
             \<lparr>available = {''10.0.0.1''}, allocated = Map.empty\<rparr>
           = (None, \<lparr>available = {}, allocated = [''10.0.0.1'' \<mapsto> ''web'']\<rparr>)"
    by (simp add: storage_defs)
  from storage_ops_keep_sets_disjoint [OF d a] d a show ?thesis by simp
qed

section \<open>Address arithmetic: supporting lemmas\<close>

subsection \<open>Bytes and masks\<close>

lemma drop_bit_255: "drop_bit n (255 :: 8 word) = mask (8 - n)"
proof -
  have e: "(255 :: 8 word) = mask 8" by (simp add: mask_eq_exp_minus_1)
  have "drop_bit n (mask 8 :: 8 word) = mask (8 - n)"
    by (rule bit_eqI) (auto simp: bit_simps)
  then show ?thesis by (simp only: e)
qed

lemma and_not_mask_push: "(a :: 'a::len word) AND NOT (mask j) = push_bit j (drop_bit j a)"
  by (rule bit_eqI) (auto simp add: bit_simps)

lemma byte_mask_val:
  fixes a :: "8 word"
  shows "unat (a AND NOT (drop_bit n 255)) = unat a div 2 ^ (8 - n) * 2 ^ (8 - n)"
proof -
  have "unat (push_bit (8 - n) (drop_bit (8 - n) a)) = unat a div 2 ^ (8 - n) * 2 ^ (8 - n)"
  by (metis (no_types, lifting) div_times_less_eq_dividend drop_bit_eq_div
    le_unat_uoi push_bit_eq_mult push_bit_of_nat unat_drop_bit_eq
    uno_simps(2) unsigned_word_eqI)
  then show ?thesis by (simp add: drop_bit_255 and_not_mask_push)
qed

lemma ip_val_less: "ip_val ip < 256 ^ length ip"
proof (induction ip)
  case Nil show ?case by simp
next
  case (Cons a as)
  have "unat a < 256" using unsigned_less [of a] by simp
  then have "unat a * 256 ^ length as + ip_val as < (unat a + 1) * 256 ^ length as"
    using Cons by simp
  also have "\<dots> \<le> 256 * 256 ^ length as"
    using \<open>unat a < 256\<close> by (intro mult_right_mono) auto
  finally show ?case by simp
qed

lemma CIDRMask_bytes_0: "CIDRMask_bytes l 0 = replicate l 0"
  by (induction l) auto

lemma length_CIDRMask_bytes [simp]: "length (CIDRMask_bytes l n) = l"
  by (induction l arbitrary: n) auto

lemma ip_val_and_zero: "length x = l \<Longrightarrow> ip_val (map2 (\<lambda>a m. a AND m) x (replicate l 0)) = 0"
  by (induction x arbitrary: l) auto

lemma and_255 [simp]: "(a :: 8 word) AND 255 = a"
proof -
  have "(255 :: 8 word) = - 1" by simp
  then show ?thesis by (simp only: and.right_neutral)
qed

lemma masked_val:
  "length x = l \<Longrightarrow> n \<le> 8 * l \<Longrightarrow>
   ip_val (map2 (\<lambda>a m. a AND m) x (CIDRMask_bytes l n))
     = ip_val x div 2 ^ (8 * l - n) * 2 ^ (8 * l - n)"
proof (induction l arbitrary: x n)
  case 0 then show ?case by simp
next
  case (Suc l)
  then obtain a xs where x: "x = a # xs" and lx: "length xs = l" by (cases x) auto
  have xs_less: "ip_val xs < 2 ^ (8 * l)" using ip_val_less [of xs] lx
    by (simp add: power_mult)
  have p256: "(256::nat) ^ l = 2 ^ (8 * l)" by (simp add: power_mult)
  show ?case
  proof (cases "n \<ge> 8")
    case True
    define j where "j = 8 * l - (n - 8)"
    have j: "8 * Suc l - n = j" "8 + 8 * l - n = j" "j \<le> 8 * l"
      using True Suc.prems by (auto simp: j_def)
    have ih: "ip_val (map2 (\<lambda>a m. a AND m) xs (CIDRMask_bytes l (n - 8))) = ip_val xs div 2 ^ j * 2 ^ j"
      using Suc.IH [OF lx, of "n - 8"] Suc.prems True by (simp add: j_def)
    have split: "(2::nat) ^ (8 * l) = 2 ^ (8 * l - j) * 2 ^ j"
      using j by (simp flip: power_add)
    have "(unat a * 2 ^ (8 * l) + ip_val xs) div 2 ^ j = unat a * 2 ^ (8 * l - j) + ip_val xs div 2 ^ j"
      by (subst split) (simp add: mult.assoc [symmetric])
    then show ?thesis using True ih
      by (simp add: x lx j p256 split [symmetric] add_mult_distrib mult.assoc)
  next
    case False
    define k where "k = 8 - n"
    have e: "8 * Suc l - n = 8 * l + k" using False by (simp add: k_def)
    have "(unat a * 2 ^ (8 * l) + ip_val xs) div 2 ^ (8 * l) = unat a"
      using xs_less by simp
    then have d: "(unat a * 2 ^ (8 * l) + ip_val xs) div 2 ^ (8 * l + k) = unat a div 2 ^ k"
      by (simp add: power_add div_mult2_eq)
    have "ip_val (map2 (\<lambda>a m. a AND m) x (CIDRMask_bytes (Suc l) n))
            = unat a div 2 ^ k * 2 ^ k * 2 ^ (8 * l)"
      using False lx by (simp add: x CIDRMask_bytes_0 ip_val_and_zero byte_mask_val p256 k_def)
    also have "\<dots> = ip_val x div 2 ^ (8 * l + k) * 2 ^ (8 * l + k)"
      using d lx by (simp add: x p256 power_add mult.assoc mult.commute)
    finally show ?thesis by (simp only: e)
  qed
qed

lemma ip_val_inj: "length x = length y \<Longrightarrow> ip_val x = ip_val y \<Longrightarrow> x = y"
proof (induction x arbitrary: y)
  case Nil then show ?case by simp
next
  case (Cons a xs)
  then obtain b ys where y: "y = b # ys" and l: "length xs = length ys" by (cases y) auto
  let ?q = "(256::nat) ^ length ys"
  have eq: "unat a * ?q + ip_val xs = unat b * ?q + ip_val ys"
    using Cons.prems(2) by (simp add: y l)
  have lx: "ip_val xs < ?q" using ip_val_less [of xs] l by simp
  have ly: "ip_val ys < ?q" using ip_val_less [of ys] by simp
  have "(unat a * ?q + ip_val xs) div ?q = unat a" using lx by simp
  moreover have "(unat b * ?q + ip_val ys) div ?q = unat b" using ly by simp
  ultimately have ab: "unat a = unat b" using eq by simp
  then have "ip_val xs = ip_val ys" using eq by simp
  then have "xs = ys" using Cons.IH l by blast
  moreover have "a = b" using ab by (simp add: word_unat_eq_iff)
  ultimately show ?case by (simp add: y)
qed

lemma CIDRMask_32: "n \<le> 32 \<Longrightarrow> CIDRMask n 32 = CIDRMask_bytes 4 n"
  by (simp add: CIDRMask_def)

lemma length_CIDRMask [simp]: "n \<le> 32 \<Longrightarrow> length (CIDRMask n 32) = 4"
  by (simp add: CIDRMask_32)

lemma IP_Mask_val:
  assumes "length ip = 4" "n \<le> 32"
  shows "ip_val (IP_Mask ip (CIDRMask n 32)) = ip_val ip div 2 ^ (32 - n) * 2 ^ (32 - n)"
  using masked_val [of ip 4 n] assms by (simp add: IP_Mask_def CIDRMask_32)

lemma length_IP_Mask [simp]: "length ip = 4 \<Longrightarrow> n \<le> 32 \<Longrightarrow> length (IP_Mask ip (CIDRMask n 32)) = 4"
  by (simp add: IP_Mask_def)

lemma Contains_iff:
  assumes "length base = 4" "n \<le> 32"
  shows "Contains \<lparr>net_IP = base, net_Mask = CIDRMask n 32\<rparr> ip \<longleftrightarrow>
         length ip = 4 \<and> ip_val ip div 2 ^ (32 - n) = ip_val base div 2 ^ (32 - n)"
proof (cases "length ip = 4")
  case False then show ?thesis using assms by (simp add: Contains_def)
next
  case True
  let ?m = "CIDRMask n 32"
  have "Contains \<lparr>net_IP = base, net_Mask = ?m\<rparr> ip \<longleftrightarrow> IP_Mask base ?m = IP_Mask ip ?m"
    using assms True by (simp add: Contains_def IP_Mask_def)
  also have "\<dots> \<longleftrightarrow> ip_val (IP_Mask base ?m) = ip_val (IP_Mask ip ?m)"
  proof
    assume "IP_Mask base ?m = IP_Mask ip ?m" then show "ip_val (IP_Mask base ?m) = ip_val (IP_Mask ip ?m)" by simp
  next
    assume "ip_val (IP_Mask base ?m) = ip_val (IP_Mask ip ?m)"
    moreover have "length (IP_Mask base ?m) = length (IP_Mask ip ?m)" using assms True by simp
    ultimately show "IP_Mask base ?m = IP_Mask ip ?m" by (rule ip_val_inj [rotated])
  qed
  also have "\<dots> \<longleftrightarrow> ip_val base div 2 ^ (32 - n) = ip_val ip div 2 ^ (32 - n)"
    using assms True by (simp add: IP_Mask_val)
  finally show ?thesis using True by (simp add: eq_commute)
qed

lemma IP_Mask_idem:
  "IP_Mask (IP_Mask ip m) m = IP_Mask ip m"
proof (cases "length ip = length m")
  case False then show ?thesis by (simp add: IP_Mask_def)
next
  case True
  then have "map2 (\<lambda>a m. a AND m) (map2 (\<lambda>a m. a AND m) ip m) m = map2 (\<lambda>a m. a AND m) ip m"
    by (induction ip m rule: list_induct2) (auto simp: and.assoc)
  then show ?thesis using True by (simp add: IP_Mask_def)
qed

subsection \<open>nextIP\<close>

lemma length_nextIP_from [simp]: "length (nextIP_from i ip) = length ip"
  by (induction i arbitrary: ip) (auto simp: Let_def)

lemma length_nextIP [simp]: "length (nextIP ip) = length ip"
  by (simp add: nextIP_def)

lemma ip_val_update:
  "i < length ip \<Longrightarrow>
   ip_val (ip[i := b]) + unat (ip ! i) * 256 ^ (length ip - Suc i)
     = ip_val ip + unat b * 256 ^ (length ip - Suc i)"
proof (induction ip arbitrary: i)
  case Nil then show ?case by simp
next
  case (Cons a as)
  show ?case
  proof (cases i)
    case 0 then show ?thesis by simp
  next
    case (Suc k)
    then have "k < length as" using Cons.prems by simp
    from Cons.IH [OF this] Suc show ?thesis by simp
  qed
qed

lemma nextIP_from_val:
  "i \<le> length ip \<Longrightarrow>
   ip_val (nextIP_from i ip) = (ip_val ip + 256 ^ (length ip - i)) mod 256 ^ length ip"
proof (induction i arbitrary: ip)
  case 0
  then show ?case using ip_val_less [of ip] by simp
next
  case (Suc i)
  let ?L = "length ip"
  let ?b = "ip ! i"
  let ?ip' = "ip[i := ?b + 1]"
  let ?w = "(256::nat) ^ (?L - Suc i)"
  have il: "i < ?L" using Suc.prems by simp
  have upd: "ip_val ?ip' + unat ?b * ?w = ip_val ip + unat (?b + 1) * ?w"
    using ip_val_update [OF il, of "?b + 1"] .
  have w256: "256 * ?w = 256 ^ (?L - i)"
    using il by (metis Suc_diff_Suc power_Suc)
  show ?case
  proof (cases "?b + 1 = 0")
    case False
    then have "unat (?b + 1) = unat ?b + 1"
      by (simp add: add.commute unatSuc)
    then have v: "ip_val ?ip' = ip_val ip + ?w" using upd by (simp add: algebra_simps)
    have "ip_val ?ip' < 256 ^ length ?ip'" by (rule ip_val_less)
    then have "ip_val ip + ?w < 256 ^ ?L" using v by simp
    moreover have "nextIP_from (Suc i) ip = ?ip'"
      using False il by (simp add: Let_def word_greater_zero_iff)
    ultimately show ?thesis using v by simp
  next
    case True
    then have "?b = - 1" by (simp add: add_eq_0_iff2)
    then have b: "unat ?b = 255"
      by (simp add: unsigned_minus_1_eq_mask mask_eq_exp_minus_1)
    have v: "ip_val ?ip' + 255 * ?w = ip_val ip" using upd True b by simp
    have nx: "nextIP_from (Suc i) ip = nextIP_from i ?ip'"
      using True il by (simp add: Let_def)
    have "ip_val (nextIP_from i ?ip') = (ip_val ?ip' + 256 ^ (?L - i)) mod 256 ^ ?L"
      using Suc.IH [of ?ip'] Suc.prems by simp
    also have "ip_val ?ip' + 256 ^ (?L - i) = ip_val ip + ?w"
      using v w256 by (simp flip: w256)
    finally show ?thesis using nx by simp
  qed
qed

lemma nextIP_val: "length ip = 4 \<Longrightarrow> ip_val (nextIP ip) = (ip_val ip + 1) mod 2 ^ 32"
  using nextIP_from_val [of "length ip" ip] by (simp add: nextIP_def)

subsection \<open>Values and bytes\<close>

lemma length_ip_of_val [simp]: "length (ip_of_val v) = 4"
  by (simp add: ip_of_val_def)

lemma ip_val_ip_of_val: "ip_val (ip_of_val v) = v mod 2 ^ 32"
proof -
  have "ip_val (ip_of_val v)
          = (v div 2 ^ 24) mod 256 * 2 ^ 24 + (v div 2 ^ 16) mod 256 * 2 ^ 16
            + (v div 2 ^ 8) mod 256 * 2 ^ 8 + v mod 256"
    by (simp add: ip_of_val_def unat_of_nat)
  also have "\<dots> = v mod 2 ^ 32"
  proof -
    have a: "v mod 2 ^ 32 = 2 ^ 24 * (v div 2 ^ 24 mod 256) + v mod 2 ^ 24"
      using mod_mult2_eq [of v "2 ^ 24" 256] by simp
    have b: "v mod 2 ^ 24 = 2 ^ 16 * (v div 2 ^ 16 mod 256) + v mod 2 ^ 16"
      using mod_mult2_eq [of v "2 ^ 16" 256] by simp
    have c: "v mod 2 ^ 16 = 2 ^ 8 * (v div 2 ^ 8 mod 256) + v mod 2 ^ 8"
      using mod_mult2_eq [of v "2 ^ 8" 256] by simp
    show ?thesis unfolding a b c by simp
  qed
  finally show ?thesis .
qed

lemma ip_of_val_ip_val: "length ip = 4 \<Longrightarrow> ip_of_val (ip_val ip) = ip"
proof -
  assume l: "length ip = 4"
  have "ip_val ip < 2 ^ 32" using ip_val_less [of ip] l by simp
  then have "ip_val (ip_of_val (ip_val ip)) = ip_val ip"
    by (simp add: ip_val_ip_of_val)
  then show ?thesis using l by (intro ip_val_inj) auto
qed

lemma ip_of_val_mod: "ip_of_val (v mod 2 ^ 32) = ip_of_val v"
  by (rule ip_val_inj) (simp_all add: ip_val_ip_of_val)

lemma nextIP_ip_of_val: "nextIP (ip_of_val v) = ip_of_val (Suc v)"
proof (rule ip_val_inj)
  show "length (nextIP (ip_of_val v)) = length (ip_of_val (Suc v))" by simp
  show "ip_val (nextIP (ip_of_val v)) = ip_val (ip_of_val (Suc v))"
    by (simp add: nextIP_val ip_val_ip_of_val mod_Suc_eq)
qed

subsection \<open>Blocks\<close>

lemma div_eq_range:
  fixes v q sz :: nat
  assumes "0 < sz"
  shows "v div sz = q \<longleftrightarrow> q * sz \<le> v \<and> v < q * sz + sz"
proof
  assume "v div sz = q"
  then show "q * sz \<le> v \<and> v < q * sz + sz"
    using assms dividend_less_div_times [of sz v] by (auto simp: algebra_simps)
next
  assume "q * sz \<le> v \<and> v < q * sz + sz"
  then show "v div sz = q"
    by (intro div_nat_eqI) (auto simp: algebra_simps)
qed

lemma masked_base_facts:
  assumes "length ip0 = 4" "n \<le> 32"
  shows "length (IP_Mask ip0 (CIDRMask n 32)) = 4"
    and "ip_val (IP_Mask ip0 (CIDRMask n 32)) = ip_val ip0 div 2 ^ (32 - n) * 2 ^ (32 - n)"
    and "ip_val (IP_Mask ip0 (CIDRMask n 32)) + 2 ^ (32 - n) \<le> 2 ^ 32"
proof -
  let ?sz = "(2::nat) ^ (32 - n)"
  show "length (IP_Mask ip0 (CIDRMask n 32)) = 4" using assms by simp
  show v: "ip_val (IP_Mask ip0 (CIDRMask n 32)) = ip_val ip0 div ?sz * ?sz"
    using assms by (rule IP_Mask_val)
  have "ip_val ip0 < 2 ^ 32" using ip_val_less [of ip0] assms by simp
  moreover have "(2::nat) ^ 32 = 2 ^ n * ?sz" using assms by (simp flip: power_add)
  ultimately have "ip_val ip0 div ?sz < 2 ^ n"
    by (simp add: less_mult_imp_div_less)
  then have "(ip_val ip0 div ?sz + 1) * ?sz \<le> 2 ^ n * ?sz"
    by (intro mult_right_mono) auto
  then show "ip_val (IP_Mask ip0 (CIDRMask n 32)) + ?sz \<le> 2 ^ 32"
    using v \<open>(2::nat) ^ 32 = 2 ^ n * ?sz\<close> by (simp add: algebra_simps)
qed

lemma Contains_range:
  assumes "length ip0 = 4" "n \<le> 32"
  defines "base \<equiv> IP_Mask ip0 (CIDRMask n 32)"
  shows "Contains \<lparr>net_IP = base, net_Mask = CIDRMask n 32\<rparr> ip \<longleftrightarrow>
         length ip = 4 \<and> ip_val base \<le> ip_val ip \<and> ip_val ip < ip_val base + 2 ^ (32 - n)"
proof -
  let ?sz = "(2::nat) ^ (32 - n)"
  let ?q = "ip_val ip0 div ?sz"
  have b: "ip_val base = ?q * ?sz" "length base = 4"
    using masked_base_facts [OF assms(1,2)] by (simp_all add: base_def)
  have "Contains \<lparr>net_IP = base, net_Mask = CIDRMask n 32\<rparr> ip \<longleftrightarrow>
        length ip = 4 \<and> ip_val ip div ?sz = ip_val base div ?sz"
    using b(2) assms(2) by (rule Contains_iff)
  also have "ip_val base div ?sz = ?q" by (simp add: b)
  also have "ip_val ip div ?sz = ?q \<longleftrightarrow> ?q * ?sz \<le> ip_val ip \<and> ip_val ip < ?q * ?sz + ?sz"
    by (rule div_eq_range) simp
  finally show ?thesis by (simp add: b)
qed

lemma for_block_steps:
  assumes l: "length ip0 = 4" and n: "1 \<le> n" "n \<le> 32"
  defines "base \<equiv> IP_Mask ip0 (CIDRMask n 32)"
  defines "ipNet \<equiv> \<lparr>net_IP = base, net_Mask = CIDRMask n 32\<rparr>"
  shows "ip_val base \<le> v \<Longrightarrow> v + k = ip_val base + 2 ^ (32 - n) \<Longrightarrow>
         for_block ipNet body (ip_of_val v) s
           = Some (fold_ips body (map ip_of_val [v ..< ip_val base + 2 ^ (32 - n)]) s)"
proof (induction k arbitrary: v s)
  case 0
  let ?sz = "(2::nat) ^ (32 - n)"
  have le: "ip_val base + ?sz \<le> 2 ^ 32"
    using masked_base_facts(3) [OF l n(2)] by (simp add: base_def)
  have sz: "?sz < 2 ^ 32"
  proof -
    have "(2::nat) ^ (32 - n) < 2 ^ 32" using n by (intro power_strict_increasing) auto
    then show ?thesis .
  qed
  have "\<not> Contains ipNet (ip_of_val v)"
  proof (cases "v = 2 ^ 32")
    case True
    then have "ip_val (ip_of_val v) = 0" by (simp add: ip_val_ip_of_val)
    moreover have "0 < ip_val base" using 0 True sz by simp
    ultimately show ?thesis
      unfolding ipNet_def base_def Contains_range [OF l n(2)] by (simp add: base_def)
  next
    case False
    then have "v < 2 ^ 32" using 0 le by simp
    then have "ip_val (ip_of_val v) = v" by (simp add: ip_val_ip_of_val)
    then show ?thesis
      unfolding ipNet_def base_def Contains_range [OF l n(2)] using 0 by (simp add: base_def)
  qed
  then show ?case using 0 by (subst for_block.simps) simp
next
  case (Suc k)
  let ?sz = "(2::nat) ^ (32 - n)"
  have le: "ip_val base + ?sz \<le> 2 ^ 32"
    using masked_base_facts(3) [OF l n(2)] by (simp add: base_def)
  have v: "v < ip_val base + ?sz" using Suc.prems by simp
  then have "ip_val (ip_of_val v) = v" using le by (simp add: ip_val_ip_of_val)
  then have c: "Contains ipNet (ip_of_val v)"
    unfolding ipNet_def base_def Contains_range [OF l n(2)] using Suc.prems v by (simp add: base_def)
  have ih: "for_block ipNet body (ip_of_val (Suc v)) s'
              = Some (fold_ips body (map ip_of_val [Suc v ..< ip_val base + ?sz]) s')" for s'
    using Suc.IH [of "Suc v" s'] Suc.prems by simp
  have up: "[v ..< ip_val base + ?sz] = v # [Suc v ..< ip_val base + ?sz]"
    using v by (simp add: upt_conv_Cons)
  show ?case
    by (subst for_block.simps) (simp add: c up nextIP_ip_of_val ih split: prod.split option.split)
qed

lemma for_block_block_ips:
  assumes "length ip0 = 4" "1 \<le> n" "n \<le> 32"
  shows "for_block \<lparr>net_IP = IP_Mask ip0 (CIDRMask n 32), net_Mask = CIDRMask n 32\<rparr> body
            (IP_Mask ip0 (CIDRMask n 32)) s
         = Some (fold_ips body (block_ips (IP_Mask ip0 (CIDRMask n 32)) (2 ^ (32 - n))) s)"
proof -
  let ?base = "IP_Mask ip0 (CIDRMask n 32)"
  have "ip_of_val (ip_val ?base) = ?base"
    using assms by (intro ip_of_val_ip_val) simp
  then show ?thesis
    using for_block_steps [OF assms, of "ip_val ?base" "2 ^ (32 - n)" body s]
    by (simp add: block_ips_def)
qed

section \<open>Address text: supporting lemmas\<close>

lemma of_char_digit_char: "d < 10 \<Longrightarrow> (of_char (digit_char d) :: nat) = 48 + d"
  by (simp add: digit_char_def)

lemma is_digit_digit_char [simp]: "d < 10 \<Longrightarrow> is_digit (digit_char d)"
  by (simp add: is_digit_def of_char_digit_char)

lemma digit_val_digit_char [simp]: "d < 10 \<Longrightarrow> digit_val (digit_char d) = d"
  by (simp add: digit_val_def of_char_digit_char)

lemma is_digit_simps [simp]:
  "\<not> is_digit CHR ''.''" "\<not> is_digit CHR ''/''" "\<not> is_digit CHR '':''" "\<not> is_digit CHR ''%''"
  by (simp_all add: is_digit_def)

lemma all_digits_appendDecimal: "all_digits (appendDecimal a)"
proof -
  have "unat a < 256" using unsigned_less [of a, where ?'a = nat] by simp
  then have "unat a div 100 < 10" by simp
  then show ?thesis by (auto simp: all_digits_def appendDecimal_def Let_def)
qed

lemma appendDecimal_not_Nil [simp]: "appendDecimal a \<noteq> []"
  by (simp add: appendDecimal_def Let_def)

lemma parse_digits:
  "parseIPv4_loop (appendDecimal a @ rest) 0 0 fs
     = parseIPv4_loop rest (unat a) (length (appendDecimal a)) fs"
proof -
  let ?n = "unat a"
  have n: "?n < 256" using unsigned_less [of a, where ?'a = nat] by simp
  consider "?n < 10" | "10 \<le> ?n" "?n < 100" | "100 \<le> ?n" by linarith
  then show ?thesis
  proof cases
    case 1
    then show ?thesis by (simp add: appendDecimal_def Let_def)
  next
    case 2
    then have d: "?n div 10 < 10" "1 \<le> ?n div 10" by auto
    have "?n div 10 mod 10 = ?n div 10" using d by simp
    moreover have "?n div 10 * 10 + ?n mod 10 = ?n" by simp
    moreover have ad: "appendDecimal a = [digit_char (?n div 10 mod 10), digit_char (?n mod 10)]"
      using 2 by (simp add: appendDecimal_def Let_def)
    ultimately show ?thesis unfolding ad using d n by simp
  next
    case 3
    then have d: "?n div 100 < 10" "1 \<le> ?n div 100" using n by auto
    have e: "?n div 100 * 10 + ?n div 10 mod 10 = ?n div 10"
      using div_mult2_eq [of ?n 10 10] by (simp add: mult.commute)
    have f: "?n div 10 * 10 + ?n mod 10 = ?n" by simp
    have g: "?n div 10 \<le> 25" using n by simp
    have ad: "appendDecimal a
                = [digit_char (?n div 100), digit_char (?n div 10 mod 10), digit_char (?n mod 10)]"
      using 3 by (simp add: appendDecimal_def Let_def)
    show ?thesis unfolding ad using d n e f g by simp
  qed
qed

lemma parse_dot:
  "rest \<noteq> [] \<Longrightarrow> length fs < 3 \<Longrightarrow>
   parseIPv4_loop (appendDecimal a @ CHR ''.'' # rest) 0 0 fs = parseIPv4_loop rest 0 0 (fs @ [a])"
  by (simp add: parse_digits)

lemma parseIPv4_IP_String:
  "parseIPv4 (IP_String [a, b, c, d]) = Some [a, b, c, d]"
proof -
  have "parseIPv4 (IP_String [a, b, c, d])
          = parseIPv4_loop (appendDecimal a @ CHR ''.'' # (appendDecimal b @ CHR ''.'' #
              (appendDecimal c @ CHR ''.'' # appendDecimal d))) 0 0 []"
    by (simp add: parseIPv4_def)
  also have "\<dots> = parseIPv4_loop (appendDecimal d) 0 0 [a, b, c]"
    by (simp add: parse_dot)
  also have "\<dots> = Some [a, b, c, d]"
    using parse_digits [of d "[]" "[a, b, c]"] by simp
  finally show ?thesis .
qed

lemma ParseAddr_scan_digits:
  "all_digits ds \<Longrightarrow> ParseAddr_scan (ds @ CHR ''.'' # rest) s = parseIPv4 s"
  by (induction ds) (auto simp: all_digits_def)

lemma ParseIP_IP_String: "length ip = 4 \<Longrightarrow> ParseIP (IP_String ip) = Some ip"
proof -
  assume "length ip = 4"
  then obtain a b c d where ip: "ip = [a, b, c, d]"
    by (auto simp: length_Suc_conv numeral_eq_Suc)
  have "IP_String ip = appendDecimal a @ CHR ''.'' # (appendDecimal b @ ''.'' @ appendDecimal c @ ''.'' @ appendDecimal d)"
    by (simp add: ip)
  then have "ParseIP (IP_String ip) = parseIPv4 (IP_String ip)"
    unfolding ParseIP_def using ParseAddr_scan_digits [OF all_digits_appendDecimal] by metis
  then show ?thesis by (simp only: ip parseIPv4_IP_String)
qed

lemma IP_String_inj:
  "length x = 4 \<Longrightarrow> length y = 4 \<Longrightarrow> IP_String x = IP_String y \<Longrightarrow> x = y"
  by (metis ParseIP_IP_String option.inject)

lemma set_IP_String4:
  "c \<in> set (IP_String [a, b, e, d]) \<Longrightarrow> is_digit c \<or> c = CHR ''.''"
  using all_digits_appendDecimal [of a] all_digits_appendDecimal [of b]
    all_digits_appendDecimal [of e] all_digits_appendDecimal [of d]
  by (auto simp: all_digits_def)

lemma slash_notin_IP_String: "length ip = 4 \<Longrightarrow> CHR ''/'' \<notin> set (IP_String ip)"
proof -
  assume "length ip = 4"
  then obtain a b c d where ip: "ip = [a, b, c, d]"
    by (auto simp: length_Suc_conv numeral_eq_Suc)
  show ?thesis unfolding ip using set_IP_String4 [of "CHR ''/''" a b c d] by auto
qed

lemma dtoi_dec_nat: "n < 100 \<Longrightarrow> dtoi (dec_nat n) = (int n, length (dec_nat n), True)"
proof (cases "n < 10")
  case True then show ?thesis by (simp add: dtoi_def dec_nat.simps)
next
  case False
  assume "n < 100"
  then have d: "n div 10 < 10" by simp
  have "int (n div 10) * 10 + int (n mod 10) = int n"
    by (metis div_mult_mod_eq of_nat_add of_nat_mult of_nat_numeral)
  then show ?thesis using False d \<open>n < 100\<close> by (simp add: dtoi_def dec_nat.simps)
qed

lemma ParseCIDR_IP_String:
  assumes "length ip = 4" "n \<le> 32"
  shows "ParseCIDR (IP_String ip @ ''/'' @ Itoa (int n))
           = Some (ip, \<lparr>net_IP = IP_Mask ip (CIDRMask n 32), net_Mask = CIDRMask n 32\<rparr>)"
proof -
  let ?s = "IP_String ip @ ''/'' @ Itoa (int n)"
  have no: "CHR ''/'' \<notin> set (IP_String ip)" using assms(1) by (rule slash_notin_IP_String)
  have tw: "takeWhile (\<lambda>c. c \<noteq> CHR ''/'') ?s = IP_String ip"
    using no by (simp add: takeWhile_append)
  have it: "Itoa (int n) = dec_nat n" by (simp add: Itoa_def)
  have dr: "drop (Suc (length (IP_String ip))) ?s = dec_nat n"
    by (simp add: it)
  have dt: "dtoi (dec_nat n) = (int n, length (dec_nat n), True)"
    using assms(2) by (intro dtoi_dec_nat) simp
  show ?thesis
    unfolding ParseCIDR_def tw Let_def dr
    using assms by (simp add: ParseIP_IP_String dt)
qed

lemma parseIPv4_loop_length:
  "parseIPv4_loop s v dl fs = Some ip \<Longrightarrow> length fs \<le> 3 \<Longrightarrow> length ip = 4"
proof (induction s v dl fs rule: parseIPv4_loop.induct)
  case (1 val digLen octets)
  then show ?case by (auto split: if_splits)
next
  case (2 c cs val digLen octets)
  then show ?case by (auto simp: Let_def split: if_splits)
qed

lemma ParseAddr_scan_Some: "ParseAddr_scan r s = Some ip \<Longrightarrow> parseIPv4 s = Some ip"
  by (induction r) (auto split: if_splits)

lemma ParseIP_length: "ParseIP s = Some ip \<Longrightarrow> length ip = 4"
  using parseIPv4_loop_length [of s 0 0 "[]" ip] ParseAddr_scan_Some [of s s ip]
  by (simp add: ParseIP_def parseIPv4_def)

lemma ParseCIDR_SomeD:
  assumes "ParseCIDR s = Some (ip, ipNet)"
  shows "\<exists>n \<le> 32. length ip = 4
           \<and> ipNet = \<lparr>net_IP = IP_Mask ip (CIDRMask n 32), net_Mask = CIDRMask n 32\<rparr>"
proof -
  from assms obtain n i ok where
    p: "ParseIP (takeWhile (\<lambda>c. c \<noteq> CHR ''/'') s) = Some ip"
    and d: "\<not> 32 < n"
    and e: "ipNet = \<lparr>net_IP = IP_Mask ip (CIDRMask (nat n) 32), net_Mask = CIDRMask (nat n) 32\<rparr>"
    by (auto simp: ParseCIDR_def Let_def split: if_splits option.splits prod.splits)
  from p have "length ip = 4" by (rule ParseIP_length)
  with d e show ?thesis by (intro exI [of _ "nat n"]) simp
qed

section \<open>ReleaseCIDR of a block that is not allocated\<close>

text \<open>
  Claim C7. With a live context, for every CIDR text that parses, if the text form of its
  network address is not a key of the allocated map, \<open>ReleaseCIDR\<close> returns the
  not-allocated error and the engine (available set, allocated map and registry) is exactly as
  before.
\<close>

theorem ReleaseCIDR_not_allocated:
  assumes "ParseCIDR cidr = Some (ip, ipNet)"
    and "allocated (storage g) (IP_String (net_IP ipNet)) = None"
  shows "ReleaseCIDR Live cidr g = Some (Some NotAllocated, g)"
proof -
  from ParseCIDR_SomeD [OF assms(1)] obtain n where
    "ipNet = \<lparr>net_IP = IP_Mask ip (CIDRMask n 32), net_Mask = CIDRMask n 32\<rparr>" by blast
  then have "IP_Mask (net_IP ipNet) (net_Mask ipNet) = net_IP ipNet"
    by (simp add: IP_Mask_idem)
  then show ?thesis
    unfolding ReleaseCIDR_def ctx_Err_def GetAllocatedIPs_def
    by (simp add: assms Let_def)
qed

theorem ReleaseCIDR_not_allocated_witness:
  "ParseCIDR ''10.0.0.0/30''
     = Some ([10, 0, 0, 0], \<lparr>net_IP = [10, 0, 0, 0], net_Mask = [255, 255, 255, 252]\<rparr>)
   \<and> IP_String [10, 0, 0, 0] = ''10.0.0.0''
   \<and> ReleaseCIDR Live ''10.0.0.0/30''
         \<lparr>storage = \<lparr>available = {''10.0.0.1''}, allocated = [''10.0.0.4'' \<mapsto> ''db'']\<rparr>,
          managedCIDRs = Map.empty\<rparr>
       = Some (Some NotAllocated,
         \<lparr>storage = \<lparr>available = {''10.0.0.1''}, allocated = [''10.0.0.4'' \<mapsto> ''db'']\<rparr>,
          managedCIDRs = Map.empty\<rparr>)"
proof -
  have p: "ParseCIDR ''10.0.0.0/30''
     = Some ([10, 0, 0, 0], \<lparr>net_IP = [10, 0, 0, 0], net_Mask = [255, 255, 255, 252]\<rparr>)"
    by code_simp
  have s: "IP_String [10, 0, 0, 0] = ''10.0.0.0''" by code_simp
  show ?thesis
    using ReleaseCIDR_not_allocated [OF p, of
      "\<lparr>storage = \<lparr>available = {''10.0.0.1''}, allocated = [''10.0.0.4'' \<mapsto> ''db'']\<rparr>,
          managedCIDRs = Map.empty\<rparr>"] p s
    by simp
qed

section \<open>AllocateCIDR: the two early failures\<close>

lemma is_aligned_start_D:
  assumes "is_aligned_start bits s"
  shows "\<exists>a. ParseIP s = Some a \<and> IP_Mask a (CIDRMask (nat bits) 32) = a \<and> IP_String a = s \<and> length a = 4"
proof -
  from assms obtain a where a: "ParseIP s = Some a"
    and e: "IP_String (IP_Mask a (CIDRMask (nat bits) 32)) = s"
    by (auto simp: is_aligned_start_def cloneIP_def split: option.splits)
  have la: "length a = 4" using a by (rule ParseIP_length)
  let ?m = "IP_Mask a (CIDRMask (nat bits) 32)"
  have "length ?m = 4"
  proof (rule ccontr)
    assume n4: "length ?m \<noteq> 4"
    have "?m = [] \<or> length ?m = length a" by (simp add: IP_Mask_def)
    with n4 la have "?m = []" by auto
    then have "s = ''<nil>''" using e by simp
    moreover have "ParseIP ''<nil>'' = None" by code_simp
    ultimately show False using a by simp
  qed
  then have "ParseIP (IP_String ?m) = Some ?m" by (rule ParseIP_IP_String)
  then have "?m = a" using a e by simp
  then show ?thesis using a e la by auto
qed

text \<open>
  Claim C2. With a live context and a prefix length in 0..32, \<open>AllocateCIDR\<close> fails with the
  no-capacity error when fewer than \<open>2 ^ (32 - bits)\<close> addresses are available, and with the
  no-aligned-block error when there are enough of them but no available address equals
  itself masked with the \<open>/bits\<close> mask; in both cases the engine is left exactly as it was.
\<close>

theorem AllocateCIDR_failures:
  assumes "0 \<le> bits" and "bits \<le> 32"
  shows "(card (available (storage g)) < 2 ^ nat (32 - bits)
            \<longrightarrow> AllocateCIDR Live bits d g = (Inl NoCapacity, g))
       \<and> (2 ^ nat (32 - bits) \<le> card (available (storage g))
            \<and> (\<forall>s \<in> available (storage g). \<forall>a. ParseIP s = Some a
                    \<longrightarrow> a \<noteq> IP_Mask a (CIDRMask (nat bits) 32))
            \<longrightarrow> AllocateCIDR Live bits d g = (Inl NoAlignedBlock, g))"
proof (intro conjI impI)
  assume "card (available (storage g)) < 2 ^ nat (32 - bits)"
  then show "AllocateCIDR Live bits d g = (Inl NoCapacity, g)"
    using assms by (simp add: AllocateCIDR_def ctx_Err_def GetAvailableIPs_def Let_def)
next
  assume h: "2 ^ nat (32 - bits) \<le> card (available (storage g))
            \<and> (\<forall>s \<in> available (storage g). \<forall>a. ParseIP s = Some a
                    \<longrightarrow> a \<noteq> IP_Mask a (CIDRMask (nat bits) 32))"
  have "(0::nat) < 2 ^ nat (32 - bits)" by simp
  with h have "0 < card (available (storage g))" by linarith
  then have fin: "finite (available (storage g))" by (rule card_ge_0_finite)
  have "\<not> is_aligned_start bits s" if "s \<in> available (storage g)" for s
    using is_aligned_start_D [of bits s] h that by metis
  then have "filter (is_aligned_start bits) (sort (sorted_list_of_set (available (storage g)))) = []"
    using fin by (simp add: filter_empty_conv)
  then show "AllocateCIDR Live bits d g = (Inl NoAlignedBlock, g)"
    using assms h by (simp add: AllocateCIDR_def ctx_Err_def GetAvailableIPs_def Let_def)
qed


theorem AllocateCIDR_failures_witness:
  "AllocateCIDR Live 30 ''test''
      \<lparr>storage = \<lparr>available = {''192.168.0.4''}, allocated = Map.empty\<rparr>,
       managedCIDRs = Map.empty\<rparr>
    = (Inl NoCapacity,
      \<lparr>storage = \<lparr>available = {''192.168.0.4''}, allocated = Map.empty\<rparr>,
       managedCIDRs = Map.empty\<rparr>)
   \<and> AllocateCIDR Live 30 ''test''
      \<lparr>storage = \<lparr>available = {''192.168.0.1'', ''192.168.0.2'', ''192.168.0.3'', ''192.168.0.5''},
                   allocated = Map.empty\<rparr>,
       managedCIDRs = Map.empty\<rparr>
    = (Inl NoAlignedBlock,
      \<lparr>storage = \<lparr>available = {''192.168.0.1'', ''192.168.0.2'', ''192.168.0.3'', ''192.168.0.5''},
                   allocated = Map.empty\<rparr>,
       managedCIDRs = Map.empty\<rparr>)"
proof -
  have p: "ParseIP ''192.168.0.1'' = Some [192, 168, 0, 1]"
    "ParseIP ''192.168.0.2'' = Some [192, 168, 0, 2]"
    "ParseIP ''192.168.0.3'' = Some [192, 168, 0, 3]"
    "ParseIP ''192.168.0.5'' = Some [192, 168, 0, 5]"
    by code_simp+
  have m: "IP_Mask [192, 168, 0, 1] (CIDRMask 30 32) = [192, 168, 0, 0]"
    "IP_Mask [192, 168, 0, 2] (CIDRMask 30 32) = [192, 168, 0, 0]"
    "IP_Mask [192, 168, 0, 3] (CIDRMask 30 32) = [192, 168, 0, 0]"
    "IP_Mask [192, 168, 0, 5] (CIDRMask 30 32) = [192, 168, 0, 4]"
    by code_simp+
  show ?thesis
    using AllocateCIDR_failures [of 30
        "\<lparr>storage = \<lparr>available = {''192.168.0.4''}, allocated = Map.empty\<rparr>,
          managedCIDRs = Map.empty\<rparr>" "''test''"]
      AllocateCIDR_failures [of 30
        "\<lparr>storage = \<lparr>available = {''192.168.0.1'', ''192.168.0.2'', ''192.168.0.3'', ''192.168.0.5''},
                   allocated = Map.empty\<rparr>,
          managedCIDRs = Map.empty\<rparr>" "''test''"]
    by (simp add: p m)
qed

section \<open>GetUsedCIDRs\<close>









section \<open>What the walks of a block compute\<close>

lemma set_block_ips:
  assumes "length ip0 = 4" "n \<le> 32"
  shows "set (block_ips (IP_Mask ip0 (CIDRMask n 32)) (2 ^ (32 - n)))
           = {a. Contains \<lparr>net_IP = IP_Mask ip0 (CIDRMask n 32), net_Mask = CIDRMask n 32\<rparr> a}"
proof -
  let ?base = "IP_Mask ip0 (CIDRMask n 32)"
  let ?sz = "(2::nat) ^ (32 - n)"
  have le: "ip_val ?base + ?sz \<le> 2 ^ 32" using masked_base_facts(3) [OF assms] .
  show ?thesis
  proof (intro set_eqI iffI)
    fix a assume "a \<in> set (block_ips ?base ?sz)"
    then obtain v where v: "ip_val ?base \<le> v" "v < ip_val ?base + ?sz" "a = ip_of_val v"
      by (auto simp: block_ips_def)
    then have "ip_val a = v" using le by (simp add: ip_val_ip_of_val)
    then show "a \<in> {a. Contains \<lparr>net_IP = ?base, net_Mask = CIDRMask n 32\<rparr> a}"
      using v by (simp add: Contains_range [OF assms])
  next
    fix a assume "a \<in> {a. Contains \<lparr>net_IP = ?base, net_Mask = CIDRMask n 32\<rparr> a}"
    then have c: "length a = 4" "ip_val ?base \<le> ip_val a" "ip_val a < ip_val ?base + ?sz"
      by (simp_all add: Contains_range [OF assms])
    have "a = ip_of_val (ip_val a)" using c(1) by (simp add: ip_of_val_ip_val)
    then show "a \<in> set (block_ips ?base ?sz)"
      using c unfolding block_ips_def by (metis (no_types, lifting) atLeastLessThan_iff imageI set_map set_upt)
  qed
qed

lemma for_block_parsed:
  assumes "ParseCIDR cidr = Some (ip, \<lparr>net_IP = base, net_Mask = CIDRMask n 32\<rparr>)"
    and "1 \<le> n" "n \<le> 32"
  shows "for_block \<lparr>net_IP = base, net_Mask = CIDRMask n 32\<rparr> body
           (network_start \<lparr>net_IP = base, net_Mask = CIDRMask n 32\<rparr>) s
         = Some (fold_ips body (block_ips base (2 ^ (32 - n))) s)"
    and "set (block_ips base (2 ^ (32 - n)))
           = {a. Contains \<lparr>net_IP = base, net_Mask = CIDRMask n 32\<rparr> a}"
proof -
  from ParseCIDR_SomeD [OF assms(1)] obtain k where
    k: "k \<le> 32" "length ip = 4" "base = IP_Mask ip (CIDRMask k 32)" "CIDRMask n 32 = CIDRMask k 32"
    by auto
  have b: "base = IP_Mask ip (CIDRMask n 32)" using k by simp
  have ns: "network_start \<lparr>net_IP = base, net_Mask = CIDRMask n 32\<rparr> = base"
    by (simp add: network_start_def cloneIP_def b IP_Mask_idem)
  show "for_block \<lparr>net_IP = base, net_Mask = CIDRMask n 32\<rparr> body
           (network_start \<lparr>net_IP = base, net_Mask = CIDRMask n 32\<rparr>) s
         = Some (fold_ips body (block_ips base (2 ^ (32 - n))) s)"
    unfolding ns unfolding b using k(2) assms(2,3) by (rule for_block_block_ips)
  show "set (block_ips base (2 ^ (32 - n)))
           = {a. Contains \<lparr>net_IP = base, net_Mask = CIDRMask n 32\<rparr> a}"
    unfolding b using k(2) assms(3) by (rule set_block_ips)
qed

lemma fold_collect: "fold_ips (\<lambda>ip l. (None, l @ [cloneIP ip])) ips l = (None, l @ ips)"
  by (induction ips arbitrary: l) (auto simp: cloneIP_def)

lemma removeCIDR_body_Live:
  "removeCIDR_body Live ip st = (None, st\<lparr>available := available st - {IP_String ip}\<rparr>)"
  by (simp add: removeCIDR_body_def ctx_Err_def IsIPAvailable_def RemoveIP_def)

lemma fold_removeCIDR_body:
  "fold_ips (removeCIDR_body Live) ips st
     = (None, st\<lparr>available := available st - IP_String ` set ips\<rparr>)"
proof (induction ips arbitrary: st)
  case Nil show ?case by simp
next
  case (Cons a ips)
  have "available st - {IP_String a} - IP_String ` set ips
          = available st - IP_String ` set (a # ips)" by auto
  then show ?case
    using Cons.IH [of "st\<lparr>available := available st - {IP_String a}\<rparr>"]
    by (simp add: removeCIDR_body_Live)
qed

lemma ExpandPool_body_Live:
  "ExpandPool_body Live ip st
     = (None, st\<lparr>available := available st \<union> {s. s = IP_String ip \<and> allocated st s = None}\<rparr>)"
proof (cases "allocated st (IP_String ip) = None")
  case True
  then have "available st \<union> {s. s = IP_String ip \<and> allocated st s = None}
               = insert (IP_String ip) (available st)" by auto
  then show ?thesis using True
    by (simp add: ExpandPool_body_def ctx_Err_def GetAllocatedIPs_def AddIP_def)
next
  case False
  then have "available st \<union> {s. s = IP_String ip \<and> allocated st s = None} = available st"
    by auto
  then show ?thesis using False
    by (auto simp: ExpandPool_body_def ctx_Err_def GetAllocatedIPs_def)
qed

lemma fold_ExpandPool_body:
  "fold_ips (ExpandPool_body Live) ips st
     = (None, st\<lparr>available := available st \<union> {s \<in> IP_String ` set ips. allocated st s = None}\<rparr>)"
proof (induction ips arbitrary: st)
  case Nil show ?case by simp
next
  case (Cons a ips)
  have "available st \<union> {s. s = IP_String a \<and> allocated st s = None}
            \<union> {s \<in> IP_String ` set ips. allocated st s = None}
          = available st \<union> {s \<in> IP_String ` set (a # ips). allocated st s = None}" by auto
  then show ?case
    using Cons.IH [of "st\<lparr>available := available st \<union> {s. s = IP_String a \<and> allocated st s = None}\<rparr>"]
    by (simp add: ExpandPool_body_Live)
qed

lemma AddIP_Live:
  "AddIP Live s st
     = (if allocated st s = None then (None, st\<lparr>available := insert s (available st)\<rparr>)
        else (Some AddressAlreadyAllocated, st))"
  by (simp add: AddIP_def ctx_Err_def)

lemma AddCIDR_addAll_Live:
  "AddCIDR_addAll Live ips added st
     = (None, st\<lparr>available := available st \<union> {s \<in> IP_String ` set ips. allocated st s = None}\<rparr>)"
proof (induction ips arbitrary: st added)
  case Nil show ?case by simp
next
  case (Cons a ips)
  show ?case
  proof (cases "allocated st (IP_String a) = None")
    case True
    have "insert (IP_String a) (available st) \<union> {s \<in> IP_String ` set ips. allocated st s = None}
            = available st \<union> {s \<in> IP_String ` set (a # ips). allocated st s = None}"
      using True by auto
    then show ?thesis using True by (simp add: Cons.IH AddIP_Live ctx_Err_def Let_def)
  next
    case False
    have "available st \<union> {s \<in> IP_String ` set ips. allocated st s = None}
            = available st \<union> {s \<in> IP_String ` set (a # ips). allocated st s = None}"
      using False by auto
    then show ?thesis using False by (auto simp: Cons.IH AddIP_Live ctx_Err_def Let_def)
  qed
qed

lemma ReleaseCIDR_body_Live:
  assumes "alloc = allocated st"
  shows "ReleaseCIDR_body Live managed alloc ip st
     = (None, st\<lparr>available := available st \<union>
          {s. s = IP_String ip \<and> inManagedRange managed ip \<and> allocated st s = None}\<rparr>)"
proof (cases "inManagedRange managed ip \<and> allocated st (IP_String ip) = None")
  case True
  then have "available st \<union> {s. s = IP_String ip \<and> inManagedRange managed ip \<and> allocated st s = None}
               = insert (IP_String ip) (available st)" by auto
  then show ?thesis using True assms
    by (simp add: ReleaseCIDR_body_def ctx_Err_def AddIP_Live Let_def)
next
  case False
  then have "available st \<union> {s. s = IP_String ip \<and> inManagedRange managed ip \<and> allocated st s = None}
               = available st" by auto
  then show ?thesis using False assms
    by (auto simp: ReleaseCIDR_body_def ctx_Err_def AddIP_Live Let_def)
qed

lemma fold_ReleaseCIDR_body:
  "alloc = allocated st \<Longrightarrow>
   fold_ips (ReleaseCIDR_body Live managed alloc) ips st
     = (None, st\<lparr>available := available st \<union>
          {s. \<exists>ip \<in> set ips. s = IP_String ip \<and> inManagedRange managed ip \<and> allocated st s = None}\<rparr>)"
proof (induction ips arbitrary: st)
  case Nil show ?case by simp
next
  case (Cons a ips)
  have "available st \<union> {s. s = IP_String a \<and> inManagedRange managed a \<and> allocated st s = None}
          \<union> {s. \<exists>ip \<in> set ips. s = IP_String ip \<and> inManagedRange managed ip \<and> allocated st s = None}
        = available st \<union>
          {s. \<exists>ip \<in> set (a # ips). s = IP_String ip \<and> inManagedRange managed ip \<and> allocated st s = None}"
    by auto
  then show ?case
    using Cons.prems
      Cons.IH [of "st\<lparr>available := available st \<union>
          {s. s = IP_String a \<and> inManagedRange managed a \<and> allocated st s = None}\<rparr>"]
    by (simp add: ReleaseCIDR_body_Live)
qed

section \<open>ExpandPool on a registered CIDR\<close>

lemma AddCIDR_duplicate:
  "ParseCIDR cidr = Some p \<Longrightarrow> managedCIDRs g cidr \<noteq> None \<Longrightarrow>
   AddCIDR Live cidr d g = Some (Some DuplicateCIDR, g)"
  by (cases p) (simp add: AddCIDR_def ctx_Err_def)

text \<open>
  Claim C10. With a live context, \<open>ExpandPool\<close> of a CIDR text that is already a key of the
  registry returns the duplicate-CIDR error of its final \<open>AddCIDR\<close> step, and the engine it
  leaves has, in its available set, every address of the block that is not allocated;
  nothing is rolled back. (The prefix length is at least 1: a \<open>/0\<close> text is never registered,
  since the walk of \<open>AddCIDR\<close> over such a block does not end.)
\<close>

theorem ExpandPool_registered:
  assumes "ParseCIDR cidr = Some (ip, \<lparr>net_IP = base, net_Mask = CIDRMask n 32\<rparr>)"
    and "1 \<le> n" and "n \<le> 32"
    and "managedCIDRs g cidr \<noteq> None"
  shows "ExpandPool Live cidr g
           = Some (Some DuplicateCIDR,
               g\<lparr>storage := (storage g)\<lparr>available := available (storage g) \<union>
                  {s. \<exists>a. Contains \<lparr>net_IP = base, net_Mask = CIDRMask n 32\<rparr> a
                          \<and> s = IP_String a \<and> allocated (storage g) s = None}\<rparr>\<rparr>)"
proof -
  let ?net = "\<lparr>net_IP = base, net_Mask = CIDRMask n 32\<rparr>"
  let ?A = "available (storage g) \<union>
              {s \<in> IP_String ` set (block_ips base (2 ^ (32 - n))). allocated (storage g) s = None}"
  have fb: "for_block ?net (ExpandPool_body Live) (network_start ?net) (storage g)
              = Some (None, (storage g)\<lparr>available := ?A\<rparr>)"
    by (simp add: for_block_parsed(1) [OF assms(1-3)] fold_ExpandPool_body)
  have "?A = available (storage g) \<union>
                  {s. \<exists>a. Contains ?net a \<and> s = IP_String a \<and> allocated (storage g) s = None}"
    unfolding for_block_parsed(2) [OF assms(1-3)] by auto
  moreover have "AddCIDR Live cidr ''expanded CIDR'' (g\<lparr>storage := (storage g)\<lparr>available := ?A\<rparr>\<rparr>)
          = Some (Some DuplicateCIDR, g\<lparr>storage := (storage g)\<lparr>available := ?A\<rparr>\<rparr>)"
    using assms(1,4) by (intro AddCIDR_duplicate) auto
  ultimately show ?thesis
    using assms(1) fb by (simp add: ExpandPool_def)
qed

theorem ExpandPool_registered_witness:
  "ParseCIDR ''10.0.0.0/30''
     = Some ([10, 0, 0, 0], \<lparr>net_IP = [10, 0, 0, 0], net_Mask = CIDRMask 30 32\<rparr>)
   \<and> (\<exists>g'. ExpandPool Live ''10.0.0.0/30''
           \<lparr>storage = \<lparr>available = {}, allocated = [''10.0.0.0'' \<mapsto> ''10.0.0.0/30 - db'']\<rparr>,
            managedCIDRs = [''10.0.0.0/30'' \<mapsto>
              \<lparr>CIDR = ''10.0.0.0/30'', Description = ''lab'',
               IPNet = \<lparr>net_IP = [10, 0, 0, 0], net_Mask = CIDRMask 30 32\<rparr>\<rparr>]\<rparr>
         = Some (Some DuplicateCIDR, g')
       \<and> ''10.0.0.1'' \<in> available (storage g')
       \<and> ''10.0.0.0'' \<notin> available (storage g'))"
proof -
  let ?g = "\<lparr>storage = \<lparr>available = {}, allocated = [''10.0.0.0'' \<mapsto> ''10.0.0.0/30 - db'']\<rparr>,
            managedCIDRs = [''10.0.0.0/30'' \<mapsto>
              \<lparr>CIDR = ''10.0.0.0/30'', Description = ''lab'',
               IPNet = \<lparr>net_IP = [10, 0, 0, 0], net_Mask = CIDRMask 30 32\<rparr>\<rparr>]\<rparr>"
  have p: "ParseCIDR ''10.0.0.0/30''
     = Some ([10, 0, 0, 0], \<lparr>net_IP = [10, 0, 0, 0], net_Mask = CIDRMask 30 32\<rparr>)"
    by code_simp
  have c: "Contains \<lparr>net_IP = [10, 0, 0, 0], net_Mask = CIDRMask 30 32\<rparr> [10, 0, 0, 1]"
    by code_simp
  have s: "IP_String [10, 0, 0, 1] = ''10.0.0.1''" by code_simp
  have r: "managedCIDRs ?g ''10.0.0.0/30'' \<noteq> None" by simp
  have "''10.0.0.1'' \<in> {s. \<exists>a. Contains \<lparr>net_IP = [10, 0, 0, 0], net_Mask = CIDRMask 30 32\<rparr> a
                          \<and> s = IP_String a \<and> allocated (storage ?g) s = None}"
    using c s by (auto intro!: exI [of _ "[10, 0, 0, 1]"])
  then show ?thesis
    using ExpandPool_registered [OF p _ _ r] p by simp
qed

section \<open>AllocateCIDR: the successful path\<close>

lemma ip_val_block_lt:
  assumes "length ip0 = 4" "n \<le> 32" "v < ip_val (IP_Mask ip0 (CIDRMask n 32)) + 2 ^ (32 - n)"
  shows "ip_val (ip_of_val v) = v"
  using masked_base_facts(3) [OF assms(1,2)] assms(3) by (simp add: ip_val_ip_of_val)

lemma IP_String_ip_of_val_inj:
  "v < 2 ^ 32 \<Longrightarrow> w < 2 ^ 32 \<Longrightarrow> IP_String (ip_of_val v) = IP_String (ip_of_val w) \<Longrightarrow> v = w"
proof -
  assume a: "v < 2 ^ 32" "w < 2 ^ 32" "IP_String (ip_of_val v) = IP_String (ip_of_val w)"
  then have "ip_of_val v = ip_of_val w" by (intro IP_String_inj) auto
  then have "ip_val (ip_of_val v) = ip_val (ip_of_val w)" by simp
  then show ?thesis using a by (simp add: ip_val_ip_of_val)
qed

lemma AllocateCIDR_check_steps:
  assumes l: "length ip0 = 4" and n: "n \<le> 32"
  defines "base \<equiv> IP_Mask ip0 (CIDRMask n 32)"
  defines "ipNet \<equiv> \<lparr>net_IP = base, net_Mask = CIDRMask n 32\<rparr>"
  defines "sz \<equiv> (2::nat) ^ (32 - n)"
  shows "c + k = sz \<Longrightarrow>
         AllocateCIDR_check Live ipNet sz (ip_of_val (ip_val base + c)) c st
           = (if \<forall>v \<in> {ip_val base + c ..< ip_val base + sz}. IP_String (ip_of_val v) \<in> available st
              then None else Some AddressUnavailable)"
proof (induction k arbitrary: c)
  case 0
  then show ?case by (subst AllocateCIDR_check.simps) simp
next
  case (Suc k)
  let ?v = "ip_val base + c"
  have lt: "?v < ip_val base + sz" using Suc.prems by simp
  then have "ip_val (ip_of_val ?v) = ?v"
    unfolding base_def sz_def using l n by (intro ip_val_block_lt) auto
  then have c: "Contains ipNet (ip_of_val ?v)"
    unfolding ipNet_def base_def Contains_range [OF l n] using lt
    by (simp add: base_def sz_def)
  have ih: "AllocateCIDR_check Live ipNet sz (ip_of_val (Suc ?v)) (Suc c) st
           = (if \<forall>v \<in> {Suc ?v ..< ip_val base + sz}. IP_String (ip_of_val v) \<in> available st
              then None else Some AddressUnavailable)"
    using Suc.IH [of "Suc c"] Suc.prems by simp
  have ins: "{?v ..< ip_val base + sz} = insert ?v {Suc ?v ..< ip_val base + sz}"
    using lt by auto
  show ?case
    apply (subst AllocateCIDR_check.simps)
    using c lt Suc.prems
    by (simp add: IsIPAvailable_def ctx_Err_def nextIP_ip_of_val ih ins
          del: AllocateCIDR_check.simps)
qed

lemma AllocateCIDR_remove_steps:
  assumes l: "length ip0 = 4" and n: "n \<le> 32"
  defines "base \<equiv> IP_Mask ip0 (CIDRMask n 32)"
  defines "ipNet \<equiv> \<lparr>net_IP = base, net_Mask = CIDRMask n 32\<rparr>"
  defines "sz \<equiv> (2::nat) ^ (32 - n)"
  shows "c + k = sz \<Longrightarrow>
         \<forall>v \<in> {ip_val base + c ..< ip_val base + sz}.
            IP_String (ip_of_val v) \<noteq> startIP \<longrightarrow> IP_String (ip_of_val v) \<in> available st \<Longrightarrow>
         AllocateCIDR_remove Live ipNet sz startIP (ip_of_val (ip_val base + c)) c st
           = (None, st\<lparr>available := available st -
                (IP_String ` ip_of_val ` {ip_val base + c ..< ip_val base + sz} - {startIP})\<rparr>)"
proof (induction k arbitrary: c st)
  case 0
  then show ?case by (subst AllocateCIDR_remove.simps) simp
next
  case (Suc k)
  let ?v = "ip_val base + c"
  let ?top = "ip_val base + sz"
  have top: "?top \<le> 2 ^ 32"
    unfolding base_def sz_def using l n by (rule masked_base_facts(3))
  have lt: "?v < ?top" using Suc.prems by simp
  then have "ip_val (ip_of_val ?v) = ?v" using top by (simp add: ip_val_ip_of_val)
  then have c: "Contains ipNet (ip_of_val ?v)"
    unfolding ipNet_def base_def Contains_range [OF l n] using lt
    by (simp add: base_def sz_def)
  have ins: "{?v ..< ?top} = insert ?v {Suc ?v ..< ?top}" using lt by auto
  have unf: "AllocateCIDR_remove Live ipNet sz startIP (ip_of_val ?v) c st
      = (let ipStr = IP_String (ip_of_val ?v)
         in if ipStr \<noteq> startIP then
              (case RemoveIP Live ipStr st of
                 (Some err, st') \<Rightarrow> (Some err, snd (DeallocateIP Live startIP st'))
               | (None, st') \<Rightarrow>
                   AllocateCIDR_remove Live ipNet sz startIP (nextIP (ip_of_val ?v)) (c + 1) st')
            else AllocateCIDR_remove Live ipNet sz startIP (nextIP (ip_of_val ?v)) (c + 1) st)"
    apply (subst AllocateCIDR_remove.simps)
    using c lt Suc.prems by (simp del: AllocateCIDR_remove.simps)
  show ?case
  proof (cases "IP_String (ip_of_val ?v) = startIP")
    case True
    have "AllocateCIDR_remove Live ipNet sz startIP (ip_of_val (Suc ?v)) (Suc c) st
           = (None, st\<lparr>available := available st -
                (IP_String ` ip_of_val ` {Suc ?v ..< ?top} - {startIP})\<rparr>)"
      using Suc.IH [of "Suc c" st] Suc.prems by simp
    moreover have "IP_String ` ip_of_val ` {?v ..< ?top} - {startIP}
                     = IP_String ` ip_of_val ` {Suc ?v ..< ?top} - {startIP}"
      unfolding ins using True by auto
    ultimately show ?thesis unfolding unf using True
      by (simp add: Let_def nextIP_ip_of_val del: AllocateCIDR_remove.simps)
  next
    case False
    let ?s = "IP_String (ip_of_val ?v)"
    let ?st' = "st\<lparr>available := available st - {?s}\<rparr>"
    have av: "?s \<in> available st" using Suc.prems(2) lt False by auto
    have rest: "\<forall>w \<in> {Suc ?v ..< ?top}.
            IP_String (ip_of_val w) \<noteq> startIP \<longrightarrow> IP_String (ip_of_val w) \<in> available ?st'"
    proof (intro ballI impI)
      fix w assume w: "w \<in> {Suc ?v ..< ?top}" and ne: "IP_String (ip_of_val w) \<noteq> startIP"
      then have "IP_String (ip_of_val w) \<in> available st" using Suc.prems(2) by auto
      moreover have "IP_String (ip_of_val w) \<noteq> ?s"
        using IP_String_ip_of_val_inj [of w ?v] w lt top by auto
      ultimately show "IP_String (ip_of_val w) \<in> available ?st'" by simp
    qed
    have "AllocateCIDR_remove Live ipNet sz startIP (ip_of_val (Suc ?v)) (Suc c) ?st'
           = (None, ?st'\<lparr>available := available ?st' -
                (IP_String ` ip_of_val ` {Suc ?v ..< ?top} - {startIP})\<rparr>)"
      using Suc.IH [of "Suc c" ?st'] Suc.prems(1) rest by simp
    moreover have "available st - {?s} - (IP_String ` ip_of_val ` {Suc ?v ..< ?top} - {startIP})
                     = available st - (IP_String ` ip_of_val ` {?v ..< ?top} - {startIP})"
      unfolding ins using False by auto
    ultimately show ?thesis unfolding unf using False av
      by (simp add: Let_def RemoveIP_def ctx_Err_def nextIP_ip_of_val del: AllocateCIDR_remove.simps)
  qed
qed

lemma sort_candidates:
  "sort (filter P (sort (sorted_list_of_set S))) = filter P (sorted_list_of_set S)"
proof -
  have "sort (sorted_list_of_set S) = sorted_list_of_set S"
    by (simp add: sorted_sort_id)
  moreover have "sorted (filter P (sorted_list_of_set S))"
    using sorted_filter [of "\<lambda>x. x" "sorted_list_of_set S" P] by simp
  ultimately show ?thesis by (simp add: sorted_sort_id)
qed

lemma candidates_head:
  assumes "finite S" "filter P (sorted_list_of_set S) = s0 # rest"
  shows "s0 \<in> S \<and> P s0 \<and> (\<forall>s \<in> S. P s \<longrightarrow> s0 \<le> s)"
proof -
  have s: "sorted (s0 # rest)"
    using sorted_filter [of "\<lambda>x. x" "sorted_list_of_set S" P] assms(2) by simp
  have m: "set (s0 # rest) = {s \<in> S. P s}" using assms by (metis set_filter set_sorted_list_of_set)
  have "s0 \<in> {s \<in> S. P s}" using m by auto
  moreover have "\<forall>s \<in> {s \<in> S. P s}. s0 \<le> s" using s m by (metis insert_iff list.simps(15) order_refl sorted_simps(2))
  ultimately show ?thesis by auto
qed

lemma candidates_least:
  assumes "finite S" "s0 \<in> S" "P s0" "\<forall>s \<in> S. P s \<longrightarrow> s0 \<le> s"
  shows "\<exists>rest. filter P (sorted_list_of_set S) = s0 # rest"
proof -
  let ?L = "filter P (sorted_list_of_set S)"
  have "s0 \<in> set ?L" using assms by simp
  then obtain x rest where L: "?L = x # rest" by (cases ?L) auto
  from candidates_head [OF assms(1) L] have "x \<in> S" "P x" "x \<le> s0" using assms by auto
  then have "x = s0" using assms(4) by (simp add: order_antisym)
  then show ?thesis using L by simp
qed

lemma block_strings_image:
  "block_strings a sz = IP_String ` ip_of_val ` {ip_val a ..< ip_val a + sz}"
  by (simp add: block_strings_def block_ips_def)

lemma AllocateCIDR_Live:
  assumes bits: "0 \<le> bits" "bits \<le> 32"
    and cap: "2 ^ nat (32 - bits) \<le> card (available (storage g))"
    and cand: "filter (is_aligned_start bits) (sorted_list_of_set (available (storage g)))
                 = startIP # rest"
    and a: "ParseIP startIP = Some a"
  shows "AllocateCIDR Live bits d g
           = (if block_strings a (2 ^ nat (32 - bits)) \<subseteq> available (storage g) then
                (Inr (startIP @ ''/'' @ Itoa bits),
                 g\<lparr>storage := (storage g)\<lparr>
                     available := available (storage g) - block_strings a (2 ^ nat (32 - bits)),
                     allocated := (allocated (storage g))
                       (startIP \<mapsto> (startIP @ ''/'' @ Itoa bits) @ '' - '' @ d)\<rparr>\<rparr>)
              else (Inl AddressUnavailable, g))"
proof -
  let ?n = "nat bits"
  let ?sz = "(2::nat) ^ nat (32 - bits)"
  let ?st = "storage g"
  let ?cidr = "startIP @ ''/'' @ Itoa bits"
  let ?m = "CIDRMask ?n 32"
  let ?net = "\<lparr>net_IP = IP_Mask a ?m, net_Mask = ?m\<rparr>"
  let ?B = "block_strings a ?sz"
  have n: "?n \<le> 32" "nat (32 - bits) = 32 - ?n" "int ?n = bits" using bits by auto
  have "startIP \<in> set (filter (is_aligned_start bits) (sorted_list_of_set (available ?st)))"
    using cand by simp
  then have al: "is_aligned_start bits startIP" by simp
  from is_aligned_start_D [OF al] a have
    am: "IP_Mask a ?m = a" and as: "IP_String a = startIP" and la: "length a = 4" by auto
  have pc: "ParseCIDR ?cidr = Some (a, ?net)"
    using ParseCIDR_IP_String [OF la n(1)] unfolding as n(3) .
  have a0: "ip_of_val (ip_val a) = a" using la by (simp add: ip_of_val_ip_val)
  have chk: "AllocateCIDR_check Live ?net ?sz (cloneIP (net_IP ?net)) 0 ?st
               = (if ?B \<subseteq> available ?st then None else Some AddressUnavailable)"
    using AllocateCIDR_check_steps [OF la n(1), of 0 ?sz ?st]
    by (auto simp add: am a0 n(2) cloneIP_def block_strings_image simp del: AllocateCIDR_check.simps)
  have top: "ip_val a + ?sz \<le> 2 ^ 32"
    using masked_base_facts(3) [OF la n(1)] by (simp add: am n(2))
  have sB: "startIP \<in> ?B"
    unfolding block_strings_image using a0 as by (force simp: image_iff)
  show ?thesis
  proof (cases "?B \<subseteq> available ?st")
    case False
    then show ?thesis
      using bits cap cand chk pc
      by (simp add: AllocateCIDR_def ctx_Err_def GetAvailableIPs_def Let_def sort_candidates
            del: AllocateCIDR_check.simps AllocateCIDR_remove.simps)
  next
    case True
    let ?desc = "?cidr @ '' - '' @ d"
    let ?st1 = "?st\<lparr>available := available ?st - {startIP}, allocated := (allocated ?st)(startIP \<mapsto> ?desc)\<rparr>"
    have al1: "AllocateIP_storage Live startIP ?desc ?st = (None, ?st1)"
      using True sB by (auto simp: AllocateIP_storage_def ctx_Err_def)
    have pre: "\<forall>v \<in> {ip_val a + 0 ..< ip_val a + ?sz}.
            IP_String (ip_of_val v) \<noteq> startIP \<longrightarrow> IP_String (ip_of_val v) \<in> available ?st1"
      using True unfolding block_strings_image by auto
    have "available ?st1 - (?B - {startIP}) = available ?st - ?B" using sB by auto
    then have rem: "AllocateCIDR_remove Live ?net ?sz startIP (cloneIP (net_IP ?net)) 0 ?st1
               = (None, ?st\<lparr>available := available ?st - ?B,
                           allocated := (allocated ?st)(startIP \<mapsto> ?desc)\<rparr>)"
      using AllocateCIDR_remove_steps [OF la n(1), of 0 ?sz startIP ?st1] pre
      by (simp add: am a0 n(2) cloneIP_def block_strings_image del: AllocateCIDR_remove.simps)
    show ?thesis
      using True bits cap cand chk pc al1 rem
      by (simp add: AllocateCIDR_def ctx_Err_def GetAvailableIPs_def Let_def sort_candidates
            del: AllocateCIDR_check.simps AllocateCIDR_remove.simps)
  qed
qed

section \<open>AllocateCIDR(32) and AllocateIP on a single available address\<close>

lemma IP_Mask_full: "length x = 4 \<Longrightarrow> IP_Mask x (CIDRMask 32 32) = x"
proof -
  assume l: "length x = 4"
  have "ip_val (IP_Mask x (CIDRMask 32 32)) = ip_val x"
    using IP_Mask_val [OF l, of 32] by simp
  then show ?thesis using l by (intro ip_val_inj) auto
qed

lemma block_strings_one: "length x = 4 \<Longrightarrow> block_strings x (Suc 0) = {IP_String x}"
  by (simp add: block_strings_def block_ips_def ip_of_val_ip_val)

text \<open>
  Claim C5, as amended. With a live context, on a pool whose available set is exactly one
  address \<open>a\<close> that is the dotted-decimal text of an IPv4 address, \<open>AllocateCIDR 32 d\<close> and
  \<open>AllocateIP a d\<close> both succeed, both leave the available set empty and both add the key \<open>a\<close>
  to the allocated map; the description recorded for \<open>a\<close> is \<open>a/32 - d\<close> after \<open>AllocateCIDR\<close>
  and \<open>d\<close> after \<open>AllocateIP\<close>.
\<close>

theorem AllocateCIDR32_and_AllocateIP:
  assumes "length x = 4" and "available (storage g) = {IP_String x}"
  shows "AllocateCIDR Live 32 d g
           = (Inr (IP_String x @ ''/32''),
              g\<lparr>storage := (storage g)\<lparr>available := {},
                  allocated := (allocated (storage g))
                     (IP_String x \<mapsto> IP_String x @ ''/32 - '' @ d)\<rparr>\<rparr>)
       \<and> AllocateIP Live (IP_String x) d g
           = (None,
              g\<lparr>storage := (storage g)\<lparr>available := {},
                  allocated := (allocated (storage g))(IP_String x \<mapsto> d)\<rparr>\<rparr>)"
proof
  let ?a = "IP_String x"
  have p: "ParseIP ?a = Some x" using assms(1) by (rule ParseIP_IP_String)
  have al: "is_aligned_start 32 ?a"
    using assms(1) by (simp add: is_aligned_start_def p cloneIP_def IP_Mask_full)
  have cand: "filter (is_aligned_start 32) (sorted_list_of_set (available (storage g))) = ?a # []"
    using al by (simp add: assms(2))
  have it: "Itoa 32 = ''32''" by code_simp
  show "AllocateCIDR Live 32 d g
           = (Inr (?a @ ''/32''),
              g\<lparr>storage := (storage g)\<lparr>available := {},
                  allocated := (allocated (storage g))(?a \<mapsto> ?a @ ''/32 - '' @ d)\<rparr>\<rparr>)"
    using AllocateCIDR_Live [OF _ _ _ cand p, of d] assms
    by (simp add: block_strings_one it)
  show "AllocateIP Live ?a d g
           = (None,
              g\<lparr>storage := (storage g)\<lparr>available := {},
                  allocated := (allocated (storage g))(?a \<mapsto> d)\<rparr>\<rparr>)"
    using assms(2) by (simp add: AllocateIP_def AllocateIP_storage_def ctx_Err_def)
qed

theorem AllocateCIDR32_and_AllocateIP_witness:
  "length [10 :: 8 word, 0, 0, 1] = 4
   \<and> IP_String [10, 0, 0, 1] = ''10.0.0.1''
   \<and> AllocateCIDR Live 32 ''web''
        \<lparr>storage = \<lparr>available = {''10.0.0.1''}, allocated = Map.empty\<rparr>, managedCIDRs = Map.empty\<rparr>
       = (Inr ''10.0.0.1/32'',
          \<lparr>storage = \<lparr>available = {}, allocated = [''10.0.0.1'' \<mapsto> ''10.0.0.1/32 - web'']\<rparr>,
           managedCIDRs = Map.empty\<rparr>)
   \<and> AllocateIP Live ''10.0.0.1'' ''web''
        \<lparr>storage = \<lparr>available = {''10.0.0.1''}, allocated = Map.empty\<rparr>, managedCIDRs = Map.empty\<rparr>
       = (None,
          \<lparr>storage = \<lparr>available = {}, allocated = [''10.0.0.1'' \<mapsto> ''web'']\<rparr>,
           managedCIDRs = Map.empty\<rparr>)"
proof -
  have s: "IP_String [10, 0, 0, 1] = ''10.0.0.1''" by code_simp
  have l: "length [10 :: 8 word, 0, 0, 1] = 4" by simp
  note t = AllocateCIDR32_and_AllocateIP [OF l, of
        "\<lparr>storage = \<lparr>available = {''10.0.0.1''}, allocated = Map.empty\<rparr>, managedCIDRs = Map.empty\<rparr>"
        "''web''", unfolded s]
  from t l s show ?thesis by simp
qed

text \<open>Claim C5 as stated fails: the two calls record different descriptions for the
  address.\<close>

theorem AllocateCIDR32_description_counterexample:
  "allocated (storage (snd (AllocateCIDR Live 32 ''web''
        \<lparr>storage = \<lparr>available = {''10.0.0.1''}, allocated = Map.empty\<rparr>,
         managedCIDRs = Map.empty\<rparr>))) ''10.0.0.1''
     \<noteq> allocated (storage (snd (AllocateIP Live ''10.0.0.1'' ''web''
        \<lparr>storage = \<lparr>available = {''10.0.0.1''}, allocated = Map.empty\<rparr>,
         managedCIDRs = Map.empty\<rparr>))) ''10.0.0.1''"
proof -
  have s: "IP_String [10, 0, 0, 1] = ''10.0.0.1''" by code_simp
  have l: "length [10 :: 8 word, 0, 0, 1] = 4" by simp
  have p: "ParseIP ''10.0.0.1'' = Some [10, 0, 0, 1]" by code_simp
  have al: "is_aligned_start 32 ''10.0.0.1''" by code_simp
  have it: "Itoa 32 = ''32''" by code_simp
  note b = block_strings_one [OF l, unfolded s]
  have "AllocateCIDR Live 32 ''web''
        \<lparr>storage = \<lparr>available = {''10.0.0.1''}, allocated = Map.empty\<rparr>, managedCIDRs = Map.empty\<rparr>
       = (Inr ''10.0.0.1/32'',
          \<lparr>storage = \<lparr>available = {}, allocated = [''10.0.0.1'' \<mapsto> ''10.0.0.1/32 - web'']\<rparr>,
           managedCIDRs = Map.empty\<rparr>)"
    using AllocateCIDR_Live [of 32 "\<lparr>storage = \<lparr>available = {''10.0.0.1''}, allocated = Map.empty\<rparr>, managedCIDRs = Map.empty\<rparr>"
         "''10.0.0.1''" "[]" "[10, 0, 0, 1]" "''web''"] al p
    by (simp add: b it)
  then show ?thesis
    by (simp add: AllocateIP_def AllocateIP_storage_def ctx_Err_def)
qed

section \<open>ReleaseCIDR and RemoveCIDR: the successful paths\<close>

lemma ReleaseCIDR_Live:
  assumes p: "ParseCIDR cidr = Some (ip, \<lparr>net_IP = base, net_Mask = CIDRMask n 32\<rparr>)"
    and n: "1 \<le> n" "n \<le> 32"
    and al: "allocated (storage g) (IP_String base) \<noteq> None"
  shows "ReleaseCIDR Live cidr g
           = Some (None, g\<lparr>storage := (storage g)\<lparr>
                allocated := (allocated (storage g))(IP_String base := None),
                available := insert (IP_String base) (available (storage g) \<union>
                  {s. \<exists>a. Contains \<lparr>net_IP = base, net_Mask = CIDRMask n 32\<rparr> a \<and> s = IP_String a
                        \<and> inManagedRange (managedCIDRs g) a
                        \<and> allocated (storage g) s = None})\<rparr>\<rparr>)"
proof -
  let ?net = "\<lparr>net_IP = base, net_Mask = CIDRMask n 32\<rparr>"
  let ?st = "storage g"
  let ?ips = "block_ips base (2 ^ (32 - n))"
  let ?A = "available ?st \<union>
          {s. \<exists>a \<in> set ?ips. s = IP_String a \<and> inManagedRange (managedCIDRs g) a
                \<and> allocated ?st s = None}"
  from ParseCIDR_SomeD [OF p] obtain k where
    k: "base = IP_Mask ip (CIDRMask k 32)" "CIDRMask n 32 = CIDRMask k 32" by auto
  have idem: "IP_Mask base (CIDRMask n 32) = base"
    using k by (simp add: IP_Mask_idem)
  have fb: "for_block ?net (ReleaseCIDR_body Live (managedCIDRs g) (allocated ?st))
               (network_start ?net) ?st
              = Some (None, ?st\<lparr>available := ?A\<rparr>)"
    by (simp add: for_block_parsed(1) [OF p n] fold_ReleaseCIDR_body)
  have A: "?A = available ?st \<union>
                  {s. \<exists>a. Contains ?net a \<and> s = IP_String a
                        \<and> inManagedRange (managedCIDRs g) a \<and> allocated ?st s = None}"
    unfolding for_block_parsed(2) [OF p n] by auto
  have de: "DeallocateIP Live (IP_String base) (?st\<lparr>available := ?A\<rparr>)
              = (None, ?st\<lparr>allocated := (allocated ?st)(IP_String base := None),
                           available := insert (IP_String base) ?A\<rparr>)"
    using al by (auto simp: DeallocateIP_def ctx_Err_def)
  show ?thesis
    using p al fb de unfolding A
    by (simp add: ReleaseCIDR_def ctx_Err_def GetAllocatedIPs_def idem Let_def)
qed

lemma RemoveCIDR_Live:
  assumes p: "ParseCIDR cidr = Some (ip, \<lparr>net_IP = base, net_Mask = CIDRMask n 32\<rparr>)"
    and n: "1 \<le> n" "n \<le> 32"
    and m: "managedCIDRs g cidr = Some info" "IPNet info = \<lparr>net_IP = base, net_Mask = CIDRMask n 32\<rparr>"
  shows "RemoveCIDR Live cidr g
           = Some (None, g\<lparr>storage := (storage g)\<lparr>available := available (storage g) -
                  {s. \<exists>a. Contains \<lparr>net_IP = base, net_Mask = CIDRMask n 32\<rparr> a \<and> s = IP_String a}\<rparr>,
                managedCIDRs := (managedCIDRs g)(cidr := None)\<rparr>)"
proof -
  let ?net = "\<lparr>net_IP = base, net_Mask = CIDRMask n 32\<rparr>"
  have "IP_String ` set (block_ips base (2 ^ (32 - n))) = {s. \<exists>a. Contains ?net a \<and> s = IP_String a}"
    unfolding for_block_parsed(2) [OF p n] by auto
  then show ?thesis
    using m by (simp add: RemoveCIDR_def removeCIDRWithoutLock_def
        for_block_parsed(1) [OF p n] fold_removeCIDR_body)
qed

lemma AddCIDR_Live:
  assumes p: "ParseCIDR cidr = Some (ip, \<lparr>net_IP = base, net_Mask = CIDRMask n 32\<rparr>)"
    and n: "1 \<le> n" "n \<le> 32"
    and m: "managedCIDRs g cidr = None"
  shows "AddCIDR Live cidr d g
           = Some (None, g\<lparr>storage := (storage g)\<lparr>available := available (storage g) \<union>
                  {s. \<exists>a. Contains \<lparr>net_IP = base, net_Mask = CIDRMask n 32\<rparr> a \<and> s = IP_String a
                        \<and> allocated (storage g) s = None}\<rparr>,
                managedCIDRs := (managedCIDRs g)(cidr \<mapsto>
                   \<lparr>CIDR = cidr, Description = d,
                    IPNet = \<lparr>net_IP = base, net_Mask = CIDRMask n 32\<rparr>\<rparr>)\<rparr>)"
proof -
  let ?net = "\<lparr>net_IP = base, net_Mask = CIDRMask n 32\<rparr>"
  from ParseCIDR_SomeD [OF p] obtain k where
    k: "base = IP_Mask ip (CIDRMask k 32)" "CIDRMask n 32 = CIDRMask k 32" by auto
  have st: "cloneIP (IP_Mask ip (net_Mask ?net)) = network_start ?net"
    using k by (simp add: network_start_def cloneIP_def IP_Mask_idem)
  have fb: "for_block ?net (\<lambda>ip ipList. (None, ipList @ [cloneIP ip]))
              (cloneIP (IP_Mask ip (net_Mask ?net))) []
            = Some (None, block_ips base (2 ^ (32 - n)))"
    unfolding st by (simp add: for_block_parsed(1) [OF p n] fold_collect)
  have "{s \<in> IP_String ` set (block_ips base (2 ^ (32 - n))). allocated (storage g) s = None}
          = {s. \<exists>a. Contains ?net a \<and> s = IP_String a \<and> allocated (storage g) s = None}"
    unfolding for_block_parsed(2) [OF p n] by auto
  then show ?thesis
    using p m fb by (simp add: AddCIDR_def ctx_Err_def AddCIDR_addAll_Live)
qed

section \<open>AllocateCIDR followed by ReleaseCIDR\<close>

lemma block_ips_Suc:
  assumes "length a = 4" "ip_val a + Suc k < 2 ^ 32"
  shows "block_ips a (Suc k) = a # block_ips (nextIP a) k"
proof -
  have v: "ip_val (nextIP a) = Suc (ip_val a)"
    using assms by (simp add: nextIP_val)
  have "[ip_val a ..< ip_val a + Suc k] = ip_val a # [Suc (ip_val a) ..< Suc (ip_val a) + k]"
    by (simp add: upt_conv_Cons)
  then show ?thesis
    using assms(1) by (simp add: block_ips_def v ip_of_val_ip_val)
qed

lemma block_ips_0 [simp]: "block_ips a 0 = []"
  by (simp add: block_ips_def)

lemma AllocateCIDR_InrD:
  assumes "AllocateCIDR Live bits d g = (Inr cidr, g1)"
  shows "0 \<le> bits \<and> bits \<le> 32 \<and> 2 ^ nat (32 - bits) \<le> card (available (storage g))
       \<and> (\<exists>startIP rest a.
             filter (is_aligned_start bits) (sorted_list_of_set (available (storage g)))
               = startIP # rest
             \<and> ParseIP startIP = Some a \<and> IP_String a = startIP \<and> length a = 4
             \<and> IP_Mask a (CIDRMask (nat bits) 32) = a
             \<and> block_strings a (2 ^ nat (32 - bits)) \<subseteq> available (storage g)
             \<and> cidr = startIP @ ''/'' @ Itoa bits
             \<and> g1 = g\<lparr>storage := (storage g)\<lparr>
                     available := available (storage g) - block_strings a (2 ^ nat (32 - bits)),
                     allocated := (allocated (storage g))
                       (startIP \<mapsto> (startIP @ ''/'' @ Itoa bits) @ '' - '' @ d)\<rparr>\<rparr>)"
proof -
  have b: "0 \<le> bits \<and> bits \<le> 32"
    using assms by (cases "bits < 0 \<or> bits > 32") (simp_all add: AllocateCIDR_def ctx_Err_def)
  have cap: "2 ^ nat (32 - bits) \<le> card (available (storage g))"
    using assms b
    by (cases "card (available (storage g)) < 2 ^ nat (32 - bits)")
       (simp_all add: AllocateCIDR_def ctx_Err_def GetAvailableIPs_def Let_def)
  obtain startIP rest where
    cand: "filter (is_aligned_start bits) (sorted_list_of_set (available (storage g))) = startIP # rest"
    using assms b cap
    by (cases "filter (is_aligned_start bits) (sorted_list_of_set (available (storage g)))")
       (simp_all add: AllocateCIDR_def ctx_Err_def GetAvailableIPs_def Let_def sort_candidates)
  then have "startIP \<in> set (filter (is_aligned_start bits) (sorted_list_of_set (available (storage g))))"
    by simp
  then have "is_aligned_start bits startIP" by simp
  from is_aligned_start_D [OF this] obtain a where
    a: "ParseIP startIP = Some a" "IP_Mask a (CIDRMask (nat bits) 32) = a" "IP_String a = startIP"
       "length a = 4" by blast
  note r = AllocateCIDR_Live [OF _ _ cap cand a(1), of d]
  show ?thesis
    using assms b cap cand a r
    by (cases "block_strings a (2 ^ nat (32 - bits)) \<subseteq> available (storage g)") auto
qed

text \<open>
  Claim C3, as amended. With a live context, on a storage whose two sets are disjoint, when
  \<open>AllocateCIDR bits d\<close> succeeds with a prefix length of at least 1 and returns \<open>cidr\<close>, then
  \<open>ReleaseCIDR cidr\<close> succeeds and the allocated count is the one before the allocation. The
  network address of the block is always put back; each other address of the block is put
  back only when some block of the registry contains it. So the available count is the one
  before the allocation, and the engine exactly as it was before the allocation, if and only
  if every address of the block other than its network address lies inside some block of the
  registry.
\<close>

theorem AllocateCIDR_ReleaseCIDR_round_trip:
  assumes "1 \<le> bits"
    and "disjoint_sets (storage g)"
    and "AllocateCIDR Live bits d g = (Inr cidr, g1)"
    and "ParseCIDR cidr = Some (ip, ipNet)"
  shows "\<exists>g2. ReleaseCIDR Live cidr g1 = Some (None, g2)
            \<and> AllocatedCount Live g2 = AllocatedCount Live g
            \<and> (AvailableCount Live g2 = AvailableCount Live g \<longleftrightarrow>
                 (\<forall>a. Contains ipNet a \<and> a \<noteq> net_IP ipNet \<longrightarrow> inManagedRange (managedCIDRs g) a))
            \<and> (g2 = g \<longleftrightarrow>
                 (\<forall>a. Contains ipNet a \<and> a \<noteq> net_IP ipNet \<longrightarrow> inManagedRange (managedCIDRs g) a))"
proof -
  let ?n = "nat bits"
  let ?sz = "(2::nat) ^ nat (32 - bits)"
  from AllocateCIDR_InrD [OF assms(3)] obtain startIP rest a where
    b: "0 \<le> bits" "bits \<le> 32"
    and cap: "?sz \<le> card (available (storage g))"
    and a: "ParseIP startIP = Some a" "IP_String a = startIP" "length a = 4"
       "IP_Mask a (CIDRMask ?n 32) = a"
    and sub: "block_strings a ?sz \<subseteq> available (storage g)"
    and c: "cidr = startIP @ ''/'' @ Itoa bits"
    and g1: "g1 = g\<lparr>storage := (storage g)\<lparr>
                     available := available (storage g) - block_strings a ?sz,
                     allocated := (allocated (storage g))
                       (startIP \<mapsto> (startIP @ ''/'' @ Itoa bits) @ '' - '' @ d)\<rparr>\<rparr>"
    by blast
  let ?net = "\<lparr>net_IP = a, net_Mask = CIDRMask ?n 32\<rparr>"
  let ?B = "block_strings a ?sz"
  let ?M = "{s. \<exists>x. Contains ?net x \<and> s = IP_String x \<and> inManagedRange (managedCIDRs g1) x
                        \<and> allocated (storage g1) s = None}"
  let ?AV = "insert (IP_String a) (available (storage g1) \<union> ?M)"
  let ?H = "\<forall>x. Contains ?net x \<and> x \<noteq> a \<longrightarrow> inManagedRange (managedCIDRs g) x"
  have n: "1 \<le> ?n" "?n \<le> 32" "int ?n = bits" "nat (32 - bits) = 32 - ?n"
    using assms(1) b by auto
  have pc: "ParseCIDR cidr = Some (a, ?net)"
    using ParseCIDR_IP_String [OF a(3) n(2)] unfolding a(2) a(4) n(3) c .
  then have net: "ipNet = ?net" using assms(4) by simp
  have B: "?B = {s. \<exists>x. Contains ?net x \<and> s = IP_String x}"
    using for_block_parsed(2) [OF pc n(1,2)] by (auto simp: block_strings_def n(4))
  have len: "length x = 4" if "Contains ?net x" for x
    using that a(3) by (simp add: Contains_def)
  have sB: "startIP \<in> ?B"
    using a(3) by (auto simp: block_strings_def block_ips_def ip_of_val_ip_val a(2) image_iff
        intro!: bexI [of _ "ip_val a"])
  have na: "allocated (storage g) s = None" if "s \<in> ?B" for s
    using that sub assms(2) by (auto simp: disjoint_sets_def disjoint_iff domIff)
  have M: "?M = {s. \<exists>x. Contains ?net x \<and> x \<noteq> a \<and> s = IP_String x
                      \<and> inManagedRange (managedCIDRs g) x}"
  proof (intro set_eqI iffI)
    fix s assume "s \<in> ?M"
    then obtain x where x: "Contains ?net x" "s = IP_String x" "inManagedRange (managedCIDRs g1) x"
      "allocated (storage g1) s = None" by blast
    then have "s \<noteq> startIP" by (auto simp: g1)
    then have "x \<noteq> a" using x(2) a(2) by auto
    then show "s \<in> {s. \<exists>x. Contains ?net x \<and> x \<noteq> a \<and> s = IP_String x
                      \<and> inManagedRange (managedCIDRs g) x}"
      using x by (auto simp: g1)
  next
    fix s assume "s \<in> {s. \<exists>x. Contains ?net x \<and> x \<noteq> a \<and> s = IP_String x
                      \<and> inManagedRange (managedCIDRs g) x}"
    then obtain x where x: "Contains ?net x" "x \<noteq> a" "s = IP_String x"
      "inManagedRange (managedCIDRs g) x" by blast
    have "s \<noteq> startIP"
      using IP_String_inj [OF len [OF x(1)] a(3)] x(2,3) a(2) by auto
    moreover have "s \<in> ?B" using x unfolding B by blast
    ultimately have "allocated (storage g1) s = None" using na by (simp add: g1)
    then show "s \<in> ?M" using x by (auto simp: g1)
  qed
  have MB: "?M \<subseteq> ?B" unfolding M B by blast
  have av1: "available (storage g1) = available (storage g) - ?B" by (simp add: g1)
  have sA: "IP_String a \<in> ?B" using sB a(2) by simp
  have AVsub: "?AV \<subseteq> available (storage g)"
    unfolding av1 using MB sub sA by blast
  have eqH: "?AV = available (storage g) \<longleftrightarrow> ?H"
  proof
    assume e: "?AV = available (storage g)"
    show ?H
    proof (intro allI impI)
      fix x assume x: "Contains ?net x \<and> x \<noteq> a"
      then have xB: "IP_String x \<in> ?B" unfolding B by blast
      have ne: "IP_String x \<noteq> IP_String a"
        using IP_String_inj [OF len a(3), of x] x by auto
      have "IP_String x \<in> ?AV" using xB sub e by blast
      then have "IP_String x \<in> ?M" unfolding av1 using ne xB by blast
      then obtain y where y: "Contains ?net y" "IP_String x = IP_String y"
        "inManagedRange (managedCIDRs g) y" unfolding M by blast
      have "x = y" using IP_String_inj [OF len len, of x y] x y by auto
      then show "inManagedRange (managedCIDRs g) x" using y by simp
    qed
  next
    assume h: ?H
    have "?B - {startIP} \<subseteq> ?M"
    proof
      fix s assume s: "s \<in> ?B - {startIP}"
      then obtain x where x: "Contains ?net x" "s = IP_String x" unfolding B by blast
      then have "x \<noteq> a" using s a(2) by auto
      then show "s \<in> ?M" unfolding M using x h by blast
    qed
    then show "?AV = available (storage g)"
      unfolding av1 using MB sub sA a(2) by blast
  qed
  have al: "(allocated (storage g1))(IP_String a := None) = allocated (storage g)"
    using na [OF sB] by (auto simp: g1 a(2))
  let ?g2 = "g\<lparr>storage := (storage g)\<lparr>available := ?AV\<rparr>\<rparr>"
  have rel: "ReleaseCIDR Live cidr g1 = Some (None, ?g2)"
  proof -
    have al1: "allocated (storage g1) (IP_String a) \<noteq> None" by (simp add: g1 a(2))
    show ?thesis
      unfolding ReleaseCIDR_Live [OF pc n(1,2) al1] al by (simp add: g1)
  qed
  have fin: "finite (available (storage g))"
  proof (rule ccontr)
    assume "\<not> finite (available (storage g))"
    then have "card (available (storage g)) = 0" by simp
    then show False using cap by simp
  qed
  have cardH: "card ?AV = card (available (storage g)) \<longleftrightarrow> ?H"
    using card_subset_eq [OF fin AVsub] eqH by auto
  have g2H: "?g2 = g \<longleftrightarrow> ?H"
  proof
    assume "?g2 = g"
    then have "storage ?g2 = storage g" by simp
    then have "available (storage ?g2) = available (storage g)" by simp
    then have "?AV = available (storage g)" by simp
    then show ?H using eqH by simp
  next
    assume ?H
    then have "?AV = available (storage g)" using eqH by simp
    then show "?g2 = g" by simp
  qed
  have ac: "AllocatedCount Live ?g2 = AllocatedCount Live g"
    by (simp add: AllocatedCount_def AllocatedCount_storage_def ctx_Err_def)
  have avc: "AvailableCount Live ?g2 = AvailableCount Live g \<longleftrightarrow> ?H"
    using cardH by (simp add: AvailableCount_def AvailableCount_storage_def ctx_Err_def)
  show ?thesis
    unfolding net using rel ac avc g2H by (intro exI [of _ ?g2]) simp
qed

lemma block_strings_10_31: "block_strings [10, 0, 0, 0] 2 = {''10.0.0.0'', ''10.0.0.1''}"
proof -
  have n: "nextIP [10, 0, 0, 0] = [10, 0, 0, 1]" by code_simp
  have s: "IP_String [10, 0, 0, 0] = ''10.0.0.0''" "IP_String [10, 0, 0, 1] = ''10.0.0.1''"
    by code_simp+
  have "block_ips [10, 0, 0, 0] (Suc (Suc 0)) = [[10, 0, 0, 0], [10, 0, 0, 1]]"
    by (simp add: block_ips_Suc n)
  then have "block_strings [10, 0, 0, 0] (Suc (Suc 0)) = {''10.0.0.0'', ''10.0.0.1''}"
    unfolding block_strings_def by (simp only: list.set image_insert image_empty s)
  then show ?thesis by (simp add: numeral_2_eq_2)
qed

lemma AllocateCIDR_10_31:
  assumes "available (storage g) = {''10.0.0.0'', ''10.0.0.1''}"
  shows "AllocateCIDR Live 31 ''x'' g
           = (Inr ''10.0.0.0/31'',
              g\<lparr>storage := (storage g)\<lparr>available := {},
                 allocated := (allocated (storage g))(''10.0.0.0'' \<mapsto> ''10.0.0.0/31 - x'')\<rparr>\<rparr>)"
proof -
  have cand: "filter (is_aligned_start 31) (sorted_list_of_set {''10.0.0.0'', ''10.0.0.1''})
                = [''10.0.0.0'']" by code_simp
  have p: "ParseIP ''10.0.0.0'' = Some [10, 0, 0, 0]" by code_simp
  have it: "Itoa 31 = ''31''" by code_simp
  show ?thesis
    using AllocateCIDR_Live [of 31 g "''10.0.0.0''" "[]" "[10, 0, 0, 0]" "''x''"] cand p
    by (simp add: assms block_strings_10_31 it)
qed

theorem AllocateCIDR_ReleaseCIDR_round_trip_witness:
  "disjoint_sets \<lparr>available = {''10.0.0.0'', ''10.0.0.1''}, allocated = Map.empty\<rparr>
   \<and> AllocateCIDR Live 31 ''x''
        \<lparr>storage = \<lparr>available = {''10.0.0.0'', ''10.0.0.1''}, allocated = Map.empty\<rparr>,
         managedCIDRs = [''10.0.0.1/32'' \<mapsto>
            \<lparr>CIDR = ''10.0.0.1/32'', Description = ''lab'',
             IPNet = \<lparr>net_IP = [10, 0, 0, 1], net_Mask = CIDRMask 32 32\<rparr>\<rparr>]\<rparr>
       = (Inr ''10.0.0.0/31'',
        \<lparr>storage = \<lparr>available = {}, allocated = [''10.0.0.0'' \<mapsto> ''10.0.0.0/31 - x'']\<rparr>,
         managedCIDRs = [''10.0.0.1/32'' \<mapsto>
            \<lparr>CIDR = ''10.0.0.1/32'', Description = ''lab'',
             IPNet = \<lparr>net_IP = [10, 0, 0, 1], net_Mask = CIDRMask 32 32\<rparr>\<rparr>]\<rparr>)
   \<and> \<not> inManagedRange [''10.0.0.1/32'' \<mapsto>
            \<lparr>CIDR = ''10.0.0.1/32'', Description = ''lab'',
             IPNet = \<lparr>net_IP = [10, 0, 0, 1], net_Mask = CIDRMask 32 32\<rparr>\<rparr>] [10, 0, 0, 0]
   \<and> ReleaseCIDR Live ''10.0.0.0/31''
        \<lparr>storage = \<lparr>available = {}, allocated = [''10.0.0.0'' \<mapsto> ''10.0.0.0/31 - x'']\<rparr>,
         managedCIDRs = [''10.0.0.1/32'' \<mapsto>
            \<lparr>CIDR = ''10.0.0.1/32'', Description = ''lab'',
             IPNet = \<lparr>net_IP = [10, 0, 0, 1], net_Mask = CIDRMask 32 32\<rparr>\<rparr>]\<rparr>
       = Some (None,
        \<lparr>storage = \<lparr>available = {''10.0.0.0'', ''10.0.0.1''}, allocated = Map.empty\<rparr>,
         managedCIDRs = [''10.0.0.1/32'' \<mapsto>
            \<lparr>CIDR = ''10.0.0.1/32'', Description = ''lab'',
             IPNet = \<lparr>net_IP = [10, 0, 0, 1], net_Mask = CIDRMask 32 32\<rparr>\<rparr>]\<rparr>)"
proof -
  let ?reg = "[''10.0.0.1/32'' \<mapsto>
            \<lparr>CIDR = ''10.0.0.1/32'', Description = ''lab'',
             IPNet = \<lparr>net_IP = [10, 0, 0, 1], net_Mask = CIDRMask 32 32\<rparr>\<rparr>]"
  let ?g = "\<lparr>storage = \<lparr>available = {''10.0.0.0'', ''10.0.0.1''}, allocated = Map.empty\<rparr>,
         managedCIDRs = ?reg\<rparr>"
  let ?g1 = "\<lparr>storage = \<lparr>available = {}, allocated = [''10.0.0.0'' \<mapsto> ''10.0.0.0/31 - x'']\<rparr>,
         managedCIDRs = ?reg\<rparr>"
  let ?net = "\<lparr>net_IP = [10, 0, 0, 0], net_Mask = CIDRMask 31 32\<rparr>"
  have h1: "(1::int) \<le> 31" by simp
  have h2: "disjoint_sets (storage ?g)" by (simp add: disjoint_sets_def)
  have h3: "AllocateCIDR Live 31 ''x'' ?g = (Inr ''10.0.0.0/31'', ?g1)"
    using AllocateCIDR_10_31 [of ?g] by simp
  have h4: "ParseCIDR ''10.0.0.0/31'' = Some ([10, 0, 0, 0], ?net)"
    by code_simp
  have c1: "Contains \<lparr>net_IP = [10, 0, 0, 1], net_Mask = CIDRMask 32 32\<rparr> [10, 0, 0, 1]"
    by code_simp
  have c0: "\<not> Contains \<lparr>net_IP = [10, 0, 0, 1], net_Mask = CIDRMask 32 32\<rparr> [10, 0, 0, 0]"
    by code_simp
  have n: "nextIP [10, 0, 0, 0] = [10, 0, 0, 1]" by code_simp
  have bl: "block_ips [10, 0, 0, 0] (Suc (Suc 0)) = [[10, 0, 0, 0], [10, 0, 0, 1]]"
    by (simp add: block_ips_Suc n)
  have cs: "{a. Contains ?net a} = {[10, 0, 0, 0], [10, 0, 0, 1]}"
    using for_block_parsed(2) [OF h4] bl by (simp add: numeral_2_eq_2)
  have h5: "\<forall>a. Contains ?net a \<and> a \<noteq> net_IP ?net \<longrightarrow> inManagedRange (managedCIDRs ?g) a"
  proof (intro allI impI)
    fix a assume "Contains ?net a \<and> a \<noteq> net_IP ?net"
    then have "a = [10, 0, 0, 1]" using cs by auto
    then show "inManagedRange (managedCIDRs ?g) a" using c1 by (simp add: inManagedRange_def)
  qed
  have nm: "\<not> inManagedRange ?reg [10, 0, 0, 0]" using c0 by (simp add: inManagedRange_def)
  from AllocateCIDR_ReleaseCIDR_round_trip [OF h1 h2 h3 h4] h5
  have "ReleaseCIDR Live ''10.0.0.0/31'' ?g1 = Some (None, ?g)" by auto
  then show ?thesis using h2 h3 nm by simp
qed

text \<open>Claim C3 as stated fails: an address of a released block, other than its network
  address, that lies in no block of the registry is not put back.\<close>

theorem AllocateCIDR_ReleaseCIDR_counterexample:
  "AllocateCIDR Live 31 ''x''
        \<lparr>storage = \<lparr>available = {''10.0.0.0'', ''10.0.0.1''}, allocated = Map.empty\<rparr>,
         managedCIDRs = Map.empty\<rparr>
       = (Inr ''10.0.0.0/31'',
        \<lparr>storage = \<lparr>available = {}, allocated = [''10.0.0.0'' \<mapsto> ''10.0.0.0/31 - x'']\<rparr>,
         managedCIDRs = Map.empty\<rparr>)
   \<and> ReleaseCIDR Live ''10.0.0.0/31''
        \<lparr>storage = \<lparr>available = {}, allocated = [''10.0.0.0'' \<mapsto> ''10.0.0.0/31 - x'']\<rparr>,
         managedCIDRs = Map.empty\<rparr>
       = Some (None,
        \<lparr>storage = \<lparr>available = {''10.0.0.0''}, allocated = Map.empty\<rparr>,
         managedCIDRs = Map.empty\<rparr>)
   \<and> AvailableCount Live
        \<lparr>storage = \<lparr>available = {''10.0.0.0'', ''10.0.0.1''}, allocated = Map.empty\<rparr>,
         managedCIDRs = Map.empty\<rparr> = Inr 2
   \<and> AvailableCount Live
        \<lparr>storage = \<lparr>available = {''10.0.0.0''}, allocated = Map.empty\<rparr>,
         managedCIDRs = Map.empty\<rparr> = Inr 1"
proof -
  let ?g = "\<lparr>storage = \<lparr>available = {''10.0.0.0'', ''10.0.0.1''}, allocated = Map.empty\<rparr>,
         managedCIDRs = Map.empty\<rparr>"
  let ?g1 = "\<lparr>storage = \<lparr>available = {}, allocated = [''10.0.0.0'' \<mapsto> ''10.0.0.0/31 - x'']\<rparr>,
         managedCIDRs = Map.empty\<rparr>"
  have a: "AllocateCIDR Live 31 ''x'' ?g = (Inr ''10.0.0.0/31'', ?g1)"
    using AllocateCIDR_10_31 [of ?g] by simp
  have p: "ParseCIDR ''10.0.0.0/31''
              = Some ([10, 0, 0, 0], \<lparr>net_IP = [10, 0, 0, 0], net_Mask = CIDRMask 31 32\<rparr>)"
    by code_simp
  have s: "IP_String [10, 0, 0, 0] = ''10.0.0.0''" by code_simp
  have al: "allocated (storage ?g1) (IP_String [10, 0, 0, 0]) \<noteq> None"
    unfolding s by simp
  have r: "ReleaseCIDR Live ''10.0.0.0/31'' ?g1
             = Some (None, \<lparr>storage = \<lparr>available = {''10.0.0.0''}, allocated = Map.empty\<rparr>,
                            managedCIDRs = Map.empty\<rparr>)"
    using ReleaseCIDR_Live [OF p _ _ al, unfolded s]
    by (simp add: inManagedRange_def)
  have c: "AvailableCount Live ?g = Inr 2"
    "AvailableCount Live \<lparr>storage = \<lparr>available = {''10.0.0.0''}, allocated = Map.empty\<rparr>,
         managedCIDRs = Map.empty\<rparr> = Inr 1"
    by (simp_all add: AvailableCount_def AvailableCount_storage_def ctx_Err_def)
  from a r c show ?thesis by simp
qed

section \<open>AddCIDR followed by RemoveCIDR\<close>

lemma for_block_never_returns_aux:
  assumes "for_block ipNet body ip s = Some y"
  shows "\<not> ((\<forall>a. length a = 4 \<longrightarrow> Contains ipNet a) \<and> (\<forall>ip s. fst (body ip s) = None)
      \<and> length ip = 4)"
proof (rule for_block.raw_induct [where P = "\<lambda>ipNet body ip s y.
    \<not> ((\<forall>a. length a = 4 \<longrightarrow> Contains ipNet a) \<and> (\<forall>ip s. fst (body ip s) = None)
      \<and> length ip = 4)", OF _ assms])
  fix f :: "IPNet \<Rightarrow> (ip \<Rightarrow> 'a \<Rightarrow> error option \<times> 'a) \<Rightarrow> ip \<Rightarrow> 'a \<Rightarrow> (error option \<times> 'a) option"
    and ipNet body ip s y
  assume ih: "\<And>ipNet body ip s y. f ipNet body ip s = Some y \<Longrightarrow>
          \<not> ((\<forall>a. length a = 4 \<longrightarrow> Contains ipNet a) \<and> (\<forall>ip s. fst (body ip s) = None)
             \<and> length ip = 4)"
    and st: "(if Contains ipNet ip
      then case body ip s of
           (None, s') \<Rightarrow> f ipNet body (nextIP ip) s'
           | (Some err, s') \<Rightarrow> Some (Some err, s')
      else Some (None, s)) = Some y"
  show "\<not> ((\<forall>a. length a = 4 \<longrightarrow> Contains ipNet a) \<and> (\<forall>ip s. fst (body ip s) = None)
      \<and> length ip = 4)"
  proof
    assume h: "(\<forall>a. length a = 4 \<longrightarrow> Contains ipNet a) \<and> (\<forall>ip s. fst (body ip s) = None)
      \<and> length ip = 4"
    then have c: "Contains ipNet ip" by simp
    obtain s' where b: "body ip s = (None, s')" using h by (metis prod.collapse)
    from st c b have "f ipNet body (nextIP ip) s' = Some y" by simp
    from ih [OF this] h show False by simp
  qed
qed

lemma for_block_never_returns:
  assumes "\<forall>a. length a = 4 \<longrightarrow> Contains ipNet a" "\<forall>ip s. fst (body ip s) = None" "length ip = 4"
  shows "for_block ipNet body ip s = None"
  using for_block_never_returns_aux [of ipNet body ip s] assms by (cases "for_block ipNet body ip s") auto

lemma AddCIDR_slash0_never_returns:
  assumes p: "ParseCIDR cidr = Some (ip, \<lparr>net_IP = base, net_Mask = CIDRMask 0 32\<rparr>)"
    and m: "managedCIDRs g cidr = None"
  shows "AddCIDR Live cidr d g = None"
proof -
  let ?net = "\<lparr>net_IP = base, net_Mask = CIDRMask 0 32\<rparr>"
  from ParseCIDR_SomeD [OF p] obtain k where
    k: "length ip = 4" "k \<le> 32" "base = IP_Mask ip (CIDRMask k 32)" "CIDRMask 0 32 = CIDRMask k 32"
    by auto
  have lb: "length base = 4" using k by simp
  have "Contains ?net a" if "length a = 4" for a
    using Contains_iff [OF lb, of 0 a] that ip_val_less [of a] ip_val_less [of base] lb by simp
  then have "for_block ?net (\<lambda>ip ipList. (None, ipList @ [cloneIP ip]))
               (cloneIP (IP_Mask ip (net_Mask ?net))) [] = None"
    using k by (intro for_block_never_returns) (auto simp: cloneIP_def)
  then show ?thesis using p m by (simp add: AddCIDR_def ctx_Err_def)
qed


lemma Contains_strings:
  assumes "ParseCIDR cidr = Some (ip, \<lparr>net_IP = base, net_Mask = CIDRMask n 32\<rparr>)"
    and "1 \<le> n" "n \<le> 32"
  shows "{s. \<exists>a. Contains \<lparr>net_IP = base, net_Mask = CIDRMask n 32\<rparr> a \<and> s = IP_String a}
           = block_strings base (2 ^ (32 - n))"
  unfolding block_strings_def for_block_parsed(2) [OF assms] by auto

text \<open>
  Claim C4, as amended. With a live context, for every CIDR text that parses, if no address
  of its block is available before \<open>AddCIDR\<close> and \<open>AddCIDR\<close> succeeds, then \<open>RemoveCIDR\<close> of the
  same text, called on the engine that \<open>AddCIDR\<close> left, succeeds and leaves the engine exactly
  as it was before \<open>AddCIDR\<close>; so the available count is the one before \<open>AddCIDR\<close>.
\<close>

theorem AddCIDR_RemoveCIDR_round_trip:
  assumes "ParseCIDR cidr = Some (ip, ipNet)"
    and "AddCIDR Live cidr d g = Some (None, g1)"
    and "\<forall>a. Contains ipNet a \<longrightarrow> IP_String a \<notin> available (storage g)"
  shows "\<exists>g2. RemoveCIDR Live cidr g1 = Some (None, g2)
            \<and> AvailableCount Live g2 = AvailableCount Live g
            \<and> g2 = g"
proof -
  from ParseCIDR_SomeD [OF assms(1)] obtain n where
    n: "n \<le> 32" and net: "ipNet = \<lparr>net_IP = IP_Mask ip (CIDRMask n 32), net_Mask = CIDRMask n 32\<rparr>"
    by blast
  let ?base = "IP_Mask ip (CIDRMask n 32)"
  let ?net = "\<lparr>net_IP = ?base, net_Mask = CIDRMask n 32\<rparr>"
  have p: "ParseCIDR cidr = Some (ip, ?net)" using assms(1) net by simp
  have m: "managedCIDRs g cidr = None"
  proof (rule ccontr)
    assume "managedCIDRs g cidr \<noteq> None"
    then have "AddCIDR Live cidr d g = Some (Some DuplicateCIDR, g)"
      using p by (intro AddCIDR_duplicate) auto
    then show False using assms(2) by simp
  qed
  have n1: "1 \<le> n"
  proof (rule ccontr)
    assume "\<not> 1 \<le> n"
    then have "n = 0" by simp
    then have "AddCIDR Live cidr d g = None"
      using p m by (intro AddCIDR_slash0_never_returns) auto
    then show False using assms(2) by simp
  qed
  let ?X = "{s. \<exists>a. Contains ?net a \<and> s = IP_String a \<and> allocated (storage g) s = None}"
  let ?info = "\<lparr>CIDR = cidr, Description = d, IPNet = ?net\<rparr>"
  have g1: "g1 = g\<lparr>storage := (storage g)\<lparr>available := available (storage g) \<union> ?X\<rparr>,
                    managedCIDRs := (managedCIDRs g)(cidr \<mapsto> ?info)\<rparr>"
    using AddCIDR_Live [OF p n1 n m, of d] assms(2) by simp
  have mi: "managedCIDRs g1 cidr = Some ?info" "IPNet ?info = ?net" by (simp_all add: g1)
  have av: "available (storage g1) - {s. \<exists>a. Contains ?net a \<and> s = IP_String a}
              = available (storage g)"
    using assms(3) unfolding net by (auto simp: g1)
  have rg: "(managedCIDRs g1)(cidr := None) = managedCIDRs g"
    using m by (auto simp: g1)
  have "RemoveCIDR Live cidr g1 = Some (None, g)"
    unfolding RemoveCIDR_Live [OF p n1 n mi] av rg by (simp add: g1)
  then show ?thesis by simp
qed

lemma AddCIDR_10_31:
  assumes "managedCIDRs g ''10.0.0.0/31'' = None"
    and "allocated (storage g) ''10.0.0.0'' = None" "allocated (storage g) ''10.0.0.1'' = None"
  shows "AddCIDR Live ''10.0.0.0/31'' d g
           = Some (None, g\<lparr>storage := (storage g)\<lparr>available :=
                              available (storage g) \<union> {''10.0.0.0'', ''10.0.0.1''}\<rparr>,
                managedCIDRs := (managedCIDRs g)(''10.0.0.0/31'' \<mapsto>
                   \<lparr>CIDR = ''10.0.0.0/31'', Description = d,
                    IPNet = \<lparr>net_IP = [10, 0, 0, 0], net_Mask = CIDRMask 31 32\<rparr>\<rparr>)\<rparr>)"
proof -
  have p: "ParseCIDR ''10.0.0.0/31''
              = Some ([10, 0, 0, 0], \<lparr>net_IP = [10, 0, 0, 0], net_Mask = CIDRMask 31 32\<rparr>)"
    by code_simp
  have n: "(1::nat) \<le> 31" "(31::nat) \<le> 32" by simp_all
  have "{s. \<exists>a. Contains \<lparr>net_IP = [10, 0, 0, 0], net_Mask = CIDRMask 31 32\<rparr> a \<and> s = IP_String a
              \<and> allocated (storage g) s = None}
        = {s \<in> {s. \<exists>a. Contains \<lparr>net_IP = [10, 0, 0, 0], net_Mask = CIDRMask 31 32\<rparr> a
                       \<and> s = IP_String a}. allocated (storage g) s = None}"
    by auto
  also have "\<dots> = {''10.0.0.0'', ''10.0.0.1''}"
    unfolding Contains_strings [OF p n] using assms(2,3) by (auto simp: block_strings_10_31)
  finally show ?thesis
    using AddCIDR_Live [OF p n assms(1), of d] by simp
qed

lemma RemoveCIDR_10_31:
  assumes "managedCIDRs g ''10.0.0.0/31'' = Some info"
    and "IPNet info = \<lparr>net_IP = [10, 0, 0, 0], net_Mask = CIDRMask 31 32\<rparr>"
  shows "RemoveCIDR Live ''10.0.0.0/31'' g
           = Some (None, g\<lparr>storage := (storage g)\<lparr>available :=
                              available (storage g) - {''10.0.0.0'', ''10.0.0.1''}\<rparr>,
                managedCIDRs := (managedCIDRs g)(''10.0.0.0/31'' := None)\<rparr>)"
proof -
  have p: "ParseCIDR ''10.0.0.0/31''
              = Some ([10, 0, 0, 0], \<lparr>net_IP = [10, 0, 0, 0], net_Mask = CIDRMask 31 32\<rparr>)"
    by code_simp
  have n: "(1::nat) \<le> 31" "(31::nat) \<le> 32" by simp_all
  show ?thesis
    unfolding RemoveCIDR_Live [OF p n assms] Contains_strings [OF p n]
    by (simp add: block_strings_10_31)
qed

theorem AddCIDR_RemoveCIDR_round_trip_witness:
  "ParseCIDR ''10.0.0.0/31''
     = Some ([10, 0, 0, 0], \<lparr>net_IP = [10, 0, 0, 0], net_Mask = CIDRMask 31 32\<rparr>)
   \<and> AddCIDR Live ''10.0.0.0/31'' ''lab''
        \<lparr>storage = \<lparr>available = {}, allocated = Map.empty\<rparr>, managedCIDRs = Map.empty\<rparr>
       = Some (None,
          \<lparr>storage = \<lparr>available = {''10.0.0.0'', ''10.0.0.1''}, allocated = Map.empty\<rparr>,
           managedCIDRs = [''10.0.0.0/31'' \<mapsto>
              \<lparr>CIDR = ''10.0.0.0/31'', Description = ''lab'',
               IPNet = \<lparr>net_IP = [10, 0, 0, 0], net_Mask = CIDRMask 31 32\<rparr>\<rparr>]\<rparr>)
   \<and> RemoveCIDR Live ''10.0.0.0/31''
          \<lparr>storage = \<lparr>available = {''10.0.0.0'', ''10.0.0.1''}, allocated = Map.empty\<rparr>,
           managedCIDRs = [''10.0.0.0/31'' \<mapsto>
              \<lparr>CIDR = ''10.0.0.0/31'', Description = ''lab'',
               IPNet = \<lparr>net_IP = [10, 0, 0, 0], net_Mask = CIDRMask 31 32\<rparr>\<rparr>]\<rparr>
       = Some (None,
           \<lparr>storage = \<lparr>available = {}, allocated = Map.empty\<rparr>, managedCIDRs = Map.empty\<rparr>)"
proof -
  let ?g = "\<lparr>storage = \<lparr>available = {}, allocated = Map.empty\<rparr>, managedCIDRs = Map.empty\<rparr>"
  let ?g1 = "\<lparr>storage = \<lparr>available = {''10.0.0.0'', ''10.0.0.1''}, allocated = Map.empty\<rparr>,
           managedCIDRs = [''10.0.0.0/31'' \<mapsto>
              \<lparr>CIDR = ''10.0.0.0/31'', Description = ''lab'',
               IPNet = \<lparr>net_IP = [10, 0, 0, 0], net_Mask = CIDRMask 31 32\<rparr>\<rparr>]\<rparr>"
  have p: "ParseCIDR ''10.0.0.0/31''
              = Some ([10, 0, 0, 0], \<lparr>net_IP = [10, 0, 0, 0], net_Mask = CIDRMask 31 32\<rparr>)"
    by code_simp
  have a: "AddCIDR Live ''10.0.0.0/31'' ''lab'' ?g = Some (None, ?g1)"
    using AddCIDR_10_31 [of ?g "''lab''"] by simp
  have h: "\<forall>a. Contains \<lparr>net_IP = [10, 0, 0, 0], net_Mask = CIDRMask 31 32\<rparr> a
              \<longrightarrow> IP_String a \<notin> available (storage ?g)" by simp
  from AddCIDR_RemoveCIDR_round_trip [OF p a h]
  have "RemoveCIDR Live ''10.0.0.0/31'' ?g1 = Some (None, ?g)" by auto
  then show ?thesis using p a by simp
qed

text \<open>Claim C4 as stated fails: an address of the block that was already available before
  \<open>AddCIDR\<close> is removed by \<open>RemoveCIDR\<close> all the same.\<close>

theorem AddCIDR_RemoveCIDR_counterexample:
  "AddCIDR Live ''10.0.0.0/31'' ''lab''
        \<lparr>storage = \<lparr>available = {''10.0.0.1''}, allocated = Map.empty\<rparr>,
         managedCIDRs = Map.empty\<rparr>
       = Some (None,
          \<lparr>storage = \<lparr>available = {''10.0.0.0'', ''10.0.0.1''}, allocated = Map.empty\<rparr>,
           managedCIDRs = [''10.0.0.0/31'' \<mapsto>
              \<lparr>CIDR = ''10.0.0.0/31'', Description = ''lab'',
               IPNet = \<lparr>net_IP = [10, 0, 0, 0], net_Mask = CIDRMask 31 32\<rparr>\<rparr>]\<rparr>)
   \<and> RemoveCIDR Live ''10.0.0.0/31''
          \<lparr>storage = \<lparr>available = {''10.0.0.0'', ''10.0.0.1''}, allocated = Map.empty\<rparr>,
           managedCIDRs = [''10.0.0.0/31'' \<mapsto>
              \<lparr>CIDR = ''10.0.0.0/31'', Description = ''lab'',
               IPNet = \<lparr>net_IP = [10, 0, 0, 0], net_Mask = CIDRMask 31 32\<rparr>\<rparr>]\<rparr>
       = Some (None,
           \<lparr>storage = \<lparr>available = {}, allocated = Map.empty\<rparr>, managedCIDRs = Map.empty\<rparr>)
   \<and> AvailableCount Live
        \<lparr>storage = \<lparr>available = {''10.0.0.1''}, allocated = Map.empty\<rparr>,
         managedCIDRs = Map.empty\<rparr> = Inr 1
   \<and> AvailableCount Live
        \<lparr>storage = \<lparr>available = {}, allocated = Map.empty\<rparr>, managedCIDRs = Map.empty\<rparr>
       = Inr 0"
proof -
  let ?g = "\<lparr>storage = \<lparr>available = {''10.0.0.1''}, allocated = Map.empty\<rparr>,
         managedCIDRs = Map.empty\<rparr>"
  let ?g1 = "\<lparr>storage = \<lparr>available = {''10.0.0.0'', ''10.0.0.1''}, allocated = Map.empty\<rparr>,
           managedCIDRs = [''10.0.0.0/31'' \<mapsto>
              \<lparr>CIDR = ''10.0.0.0/31'', Description = ''lab'',
               IPNet = \<lparr>net_IP = [10, 0, 0, 0], net_Mask = CIDRMask 31 32\<rparr>\<rparr>]\<rparr>"
  have a: "AddCIDR Live ''10.0.0.0/31'' ''lab'' ?g = Some (None, ?g1)"
    using AddCIDR_10_31 [of ?g "''lab''"] by (simp add: insert_commute)
  have r: "RemoveCIDR Live ''10.0.0.0/31'' ?g1
             = Some (None, \<lparr>storage = \<lparr>available = {}, allocated = Map.empty\<rparr>,
                            managedCIDRs = Map.empty\<rparr>)"
    using RemoveCIDR_10_31 [of ?g1] by simp
  have c: "AvailableCount Live ?g = Inr 1"
    "AvailableCount Live \<lparr>storage = \<lparr>available = {}, allocated = Map.empty\<rparr>,
        managedCIDRs = Map.empty\<rparr> = Inr 0"
    by (simp_all add: AvailableCount_def AvailableCount_storage_def ctx_Err_def)
  from a r c show ?thesis by simp
qed

section \<open>Calls with a context that is already done\<close>

lemma Contains_network_start:
  assumes "length (net_IP n) = length (net_Mask n)"
  shows "Contains n (network_start n)"
proof -
  have "IP_Mask (IP_Mask (net_IP n) (net_Mask n)) (net_Mask n) = IP_Mask (net_IP n) (net_Mask n)"
    by (rule IP_Mask_idem)
  then show ?thesis
    using assms by (simp add: Contains_def network_start_def cloneIP_def IP_Mask_def)
qed

lemma for_block_first_error:
  "Contains ipNet ip \<Longrightarrow> body ip s = (Some err, s') \<Longrightarrow>
   for_block ipNet body ip s = Some (Some err, s')"
  by (subst for_block.simps) simp

lemma ParseCIDR_lengths:
  "ParseCIDR cidr = Some (ip, ipNet) \<Longrightarrow> length (net_IP ipNet) = length (net_Mask ipNet)"
  by (drule ParseCIDR_SomeD) auto

text \<open>
  What the operations do with a context that is already done. \<open>NewCIDRGuardian\<close>,
  \<open>AddCIDR\<close>, \<open>GetManagedCIDRs\<close>, \<open>RemoveSingleIP\<close>, \<open>AllocateCIDR\<close>, \<open>ReleaseCIDR\<close>,
  \<open>GetAvailableCIDRs\<close>, \<open>GetUsedCIDRs\<close>, \<open>AvailableCount\<close> and \<open>AllocatedCount\<close> open with the
  check of the context: they return the cancellation error and leave the engine as it was,
  whatever their other arguments are. \<open>AllocateIP\<close>, \<open>ReleaseIP\<close> and \<open>GetNextAvailableIP\<close> hand
  the context to the storage, whose first step is the same check, so they return the
  cancellation error too. \<open>AddSingleIP\<close> and \<open>ExpandPool\<close> parse their argument first and
  \<open>RemoveCIDR\<close> looks the CIDR up in the registry first: they leave the engine as it was and
  return the cancellation error only when the argument parses, or the CIDR is registered
  (with a network whose address and mask have the same length, as \<open>AddCIDR\<close> registers them).
\<close>

theorem done_context_fails_fast:
  "NewCIDRGuardian Done cidrs = Some (Inl Cancelled)
   \<and> AddCIDR Done cidr d g = Some (Some Cancelled, g)
   \<and> GetManagedCIDRs Done g = Inl Cancelled
   \<and> RemoveSingleIP Done ipStr g = (Some Cancelled, g)
   \<and> AllocateCIDR Done bits d g = (Inl Cancelled, g)
   \<and> ReleaseCIDR Done cidr g = Some (Some Cancelled, g)
   \<and> GetAvailableCIDRs Done g = Inl Cancelled
   \<and> GetUsedCIDRs Done order g = Inl Cancelled
   \<and> AvailableCount Done g = Inl Cancelled
   \<and> AllocatedCount Done g = Inl Cancelled
   \<and> AllocateIP Done ipStr d g = (Some Cancelled, g)
   \<and> ReleaseIP Done ipStr g = (Some Cancelled, g)
   \<and> GetNextAvailableIP Done d g = (Inl Cancelled, g)
   \<and> (ParseIP ipStr \<noteq> None \<longrightarrow> AddSingleIP Done ipStr g = (Some Cancelled, g))
   \<and> (ParseCIDR cidr \<noteq> None \<longrightarrow> ExpandPool Done cidr g = Some (Some Cancelled, g))
   \<and> (\<forall>info. managedCIDRs g cidr = Some info
          \<and> length (net_IP (IPNet info)) = length (net_Mask (IPNet info))
        \<longrightarrow> RemoveCIDR Done cidr g = Some (Some Cancelled, g))
   \<and> (\<exists>e. AddSingleIP Done ipStr g = (Some e, g))
   \<and> (\<exists>e. ExpandPool Done cidr g = Some (Some e, g))
   \<and> (managedCIDRs g cidr = None \<longrightarrow> (\<exists>e. RemoveCIDR Done cidr g = Some (Some e, g)))"
proof -
  have c: "ctx_Err Done = Some Cancelled" by (simp add: ctx_Err_def)
  have ex: "ParseCIDR cidr \<noteq> None \<longrightarrow> ExpandPool Done cidr g = Some (Some Cancelled, g)"
  proof
    assume "ParseCIDR cidr \<noteq> None"
    then obtain ip ipNet where p: "ParseCIDR cidr = Some (ip, ipNet)" by auto
    have "for_block ipNet (ExpandPool_body Done) (network_start ipNet) (storage g)
            = Some (Some Cancelled, storage g)"
      using Contains_network_start [OF ParseCIDR_lengths [OF p]]
      by (rule for_block_first_error) (simp add: ExpandPool_body_def c)
    then show "ExpandPool Done cidr g = Some (Some Cancelled, g)"
      using p by (simp add: ExpandPool_def)
  qed
  have rm: "\<forall>info. managedCIDRs g cidr = Some info
          \<and> length (net_IP (IPNet info)) = length (net_Mask (IPNet info))
        \<longrightarrow> RemoveCIDR Done cidr g = Some (Some Cancelled, g)"
  proof (intro allI impI)
    fix info
    assume h: "managedCIDRs g cidr = Some info
          \<and> length (net_IP (IPNet info)) = length (net_Mask (IPNet info))"
    have "for_block (IPNet info) (removeCIDR_body Done) (network_start (IPNet info)) (storage g)
            = Some (Some Cancelled, storage g)"
      using Contains_network_start [of "IPNet info"] h
      by (intro for_block_first_error) (simp_all add: removeCIDR_body_def c)
    then show "RemoveCIDR Done cidr g = Some (Some Cancelled, g)"
      using h by (simp add: RemoveCIDR_def removeCIDRWithoutLock_def)
  qed
  have e1: "\<exists>e. AddSingleIP Done ipStr g = (Some e, g)"
    by (cases "ParseIP ipStr") (simp_all add: AddSingleIP_def c)
  have e2: "\<exists>e. ExpandPool Done cidr g = Some (Some e, g)"
    using ex by (cases "ParseCIDR cidr") (simp_all add: ExpandPool_def)
  have e3: "managedCIDRs g cidr = None \<longrightarrow> (\<exists>e. RemoveCIDR Done cidr g = Some (Some e, g))"
    by (simp add: RemoveCIDR_def removeCIDRWithoutLock_def)
  have as: "ParseIP ipStr \<noteq> None \<longrightarrow> AddSingleIP Done ipStr g = (Some Cancelled, g)"
    by (auto simp: AddSingleIP_def c)
  have simple: "NewCIDRGuardian Done cidrs = Some (Inl Cancelled)"
    "AddCIDR Done cidr d g = Some (Some Cancelled, g)"
    "GetManagedCIDRs Done g = Inl Cancelled"
    "RemoveSingleIP Done ipStr g = (Some Cancelled, g)"
    "AllocateCIDR Done bits d g = (Inl Cancelled, g)"
    "ReleaseCIDR Done cidr g = Some (Some Cancelled, g)"
    "GetAvailableCIDRs Done g = Inl Cancelled"
    "GetUsedCIDRs Done order g = Inl Cancelled"
    "AvailableCount Done g = Inl Cancelled"
    "AllocatedCount Done g = Inl Cancelled"
    "AllocateIP Done ipStr d g = (Some Cancelled, g)"
    "ReleaseIP Done ipStr g = (Some Cancelled, g)"
    "GetNextAvailableIP Done d g = (Inl Cancelled, g)"
    by (simp_all add: NewCIDRGuardian_def AddCIDR_def GetManagedCIDRs_def RemoveSingleIP_def
        AllocateCIDR_def ReleaseCIDR_def GetAvailableCIDRs_def GetUsedCIDRs_def AvailableCount_def
        AllocatedCount_def AllocateIP_def ReleaseIP_def GetNextAvailableIP_def
        AllocateIP_storage_def DeallocateIP_def GetAvailableIPs_def c)
  show ?thesis
    using simple as ex rm e1 e2 e3 by blast
qed

text \<open>
  Claim C6: every public operation of the engine checks the context before any other work,
  a lookup in the registry included, and \<open>RemoveCIDR\<close> with a context that is already done
  returns the cancellation error whether or not the CIDR is registered. The code of
  \<open>RemoveCIDR\<close> does not do that: it has no check of its own, and \<open>removeCIDRWithoutLock\<close>
  looks the CIDR up in the registry before it looks at the context. Called with a done
  context on a CIDR that is not registered, it returns the not-managed error, where
  \<open>AddCIDR\<close> and \<open>ReleaseCIDR\<close>, which open with the check, return the cancellation error.
\<close>

theorem RemoveCIDR_done_context_unregistered:
  "RemoveCIDR Done ''10.0.0.0/24'' \<lparr>storage = NewMemoryIPStorage, managedCIDRs = Map.empty\<rparr>
     = Some (Some NotManaged, \<lparr>storage = NewMemoryIPStorage, managedCIDRs = Map.empty\<rparr>)"
  by (simp add: RemoveCIDR_def removeCIDRWithoutLock_def)

text \<open>The same order of steps in \<open>AddSingleIP\<close> and \<open>ExpandPool\<close>: with a done context and
  an argument that does not parse, they return the parse error.\<close>

lemma AddSingleIP_ExpandPool_done_context_unparsed:
  "AddSingleIP Done ''10.0.0'' \<lparr>storage = NewMemoryIPStorage, managedCIDRs = Map.empty\<rparr>
     = (Some InvalidIP, \<lparr>storage = NewMemoryIPStorage, managedCIDRs = Map.empty\<rparr>)
   \<and> ExpandPool Done ''10.0.0.0'' \<lparr>storage = NewMemoryIPStorage, managedCIDRs = Map.empty\<rparr>
     = Some (Some InvalidCIDR, \<lparr>storage = NewMemoryIPStorage, managedCIDRs = Map.empty\<rparr>)"
proof -
  have "ParseIP ''10.0.0'' = None" "ParseCIDR ''10.0.0.0'' = None" by code_simp+
  then show ?thesis by (simp add: AddSingleIP_def ExpandPool_def)
qed

theorem done_context_fails_fast_witness:
  "ParseIP ''10.0.0.1'' = Some [10, 0, 0, 1]
   \<and> AddSingleIP Done ''10.0.0.1'' \<lparr>storage = NewMemoryIPStorage, managedCIDRs = Map.empty\<rparr>
       = (Some Cancelled, \<lparr>storage = NewMemoryIPStorage, managedCIDRs = Map.empty\<rparr>)
   \<and> RemoveCIDR Done ''10.0.0.0/31''
          \<lparr>storage = \<lparr>available = {''10.0.0.0'', ''10.0.0.1''}, allocated = Map.empty\<rparr>,
           managedCIDRs = [''10.0.0.0/31'' \<mapsto>
              \<lparr>CIDR = ''10.0.0.0/31'', Description = ''lab'',
               IPNet = \<lparr>net_IP = [10, 0, 0, 0], net_Mask = [255, 255, 255, 254]\<rparr>\<rparr>]\<rparr>
       = Some (Some Cancelled,
          \<lparr>storage = \<lparr>available = {''10.0.0.0'', ''10.0.0.1''}, allocated = Map.empty\<rparr>,
           managedCIDRs = [''10.0.0.0/31'' \<mapsto>
              \<lparr>CIDR = ''10.0.0.0/31'', Description = ''lab'',
               IPNet = \<lparr>net_IP = [10, 0, 0, 0], net_Mask = [255, 255, 255, 254]\<rparr>\<rparr>]\<rparr>)"
proof -
  have p: "ParseIP ''10.0.0.1'' = Some [10, 0, 0, 1]" by code_simp
  let ?g = "\<lparr>storage = \<lparr>available = {''10.0.0.0'', ''10.0.0.1''}, allocated = Map.empty\<rparr>,
           managedCIDRs = [''10.0.0.0/31'' \<mapsto>
              \<lparr>CIDR = ''10.0.0.0/31'', Description = ''lab'',
               IPNet = \<lparr>net_IP = [10, 0, 0, 0], net_Mask = [255, 255, 255, 254]\<rparr>\<rparr>]\<rparr>"
  have a: "AddSingleIP Done ''10.0.0.1'' \<lparr>storage = NewMemoryIPStorage, managedCIDRs = Map.empty\<rparr>
       = (Some Cancelled, \<lparr>storage = NewMemoryIPStorage, managedCIDRs = Map.empty\<rparr>)"
    using done_context_fails_fast [of "[]" "''''" "''''"
        "\<lparr>storage = NewMemoryIPStorage, managedCIDRs = Map.empty\<rparr>" "''10.0.0.1''" 0 "[]"] p
    by simp
  have r: "RemoveCIDR Done ''10.0.0.0/31'' ?g = Some (Some Cancelled, ?g)"
    using done_context_fails_fast [of "[]" "''10.0.0.0/31''" "''''" ?g "''''" 0 "[]"]
    by simp
  from p a r show ?thesis by simp
qed

section \<open>The scenario of a /24 pool\<close>

lemma str_inj_on: "inj_on (\<lambda>v. IP_String (ip_of_val v)) {..< 2 ^ 32}"
  using IP_String_ip_of_val_inj by (auto intro!: inj_onI)

lemma block_strings_interval:
  "block_strings a n = (\<lambda>v. IP_String (ip_of_val v)) ` {ip_val a ..< ip_val a + n}"
  by (simp add: block_strings_image image_image)

lemma card_block_strings:
  assumes "ip_val a + n \<le> 2 ^ 32"
  shows "card (block_strings a n) = n"
proof -
  have "inj_on (\<lambda>v. IP_String (ip_of_val v)) {ip_val a ..< ip_val a + n}"
    using assms by (intro inj_on_subset [OF str_inj_on]) auto
  then show ?thesis by (simp add: block_strings_interval card_image)
qed

lemma finite_block_strings [simp]: "finite (block_strings a n)"
  by (simp add: block_strings_interval)

lemma block_strings_diff:
  assumes "ip_val a + n \<le> 2 ^ 32" "k \<le> n"
  shows "block_strings a n - block_strings a k
           = (\<lambda>v. IP_String (ip_of_val v)) ` {ip_val a + k ..< ip_val a + n}"
proof -
  let ?f = "\<lambda>v. IP_String (ip_of_val v)"
  have "inj_on ?f ({ip_val a ..< ip_val a + n} \<union> {ip_val a ..< ip_val a + k})"
    using assms by (intro inj_on_subset [OF str_inj_on]) auto
  then have "?f ` {ip_val a ..< ip_val a + n} - ?f ` {ip_val a ..< ip_val a + k}
          = ?f ` ({ip_val a ..< ip_val a + n} - {ip_val a ..< ip_val a + k})"
    by (rule inj_on_image_set_diff [symmetric]) auto
  moreover have "{ip_val a ..< ip_val a + n} - {ip_val a ..< ip_val a + k}
                   = {ip_val a + k ..< ip_val a + n}" by auto
  ultimately show ?thesis by (simp add: block_strings_interval)
qed

lemma ip_val_192: "ip_val [192, 168, 0, 0] = 3232235520"
  by simp

lemma ip_of_val_192:
  assumes "i < 256"
  shows "ip_of_val (3232235520 + i) = [192, 168, 0, of_nat i]"
proof (rule ip_val_inj)
  show "length (ip_of_val (3232235520 + i)) = length [192, 168, 0, of_nat i :: 8 word]" by simp
  have "unat (of_nat i :: 8 word) = i" using assms by (simp add: unat_of_nat)
  then have "ip_val [192, 168, 0, of_nat i] = 3232235520 + i" by simp
  moreover have "ip_val (ip_of_val (3232235520 + i)) = 3232235520 + i"
    using assms by (simp add: ip_val_ip_of_val)
  ultimately show "ip_val (ip_of_val (3232235520 + i)) = ip_val [192, 168, 0, of_nat i]" by simp
qed

lemma append_le_append: "(xs :: string) @ ys \<le> xs @ zs \<longleftrightarrow> ys \<le> zs"
  by (induction xs) auto

lemma digit_char_less: "j < 10 \<Longrightarrow> k < 10 \<Longrightarrow> digit_char j < digit_char k \<longleftrightarrow> j < k"
  by (simp add: less_char_def of_char_digit_char)

lemma digit_char_eq: "j < 10 \<Longrightarrow> k < 10 \<Longrightarrow> digit_char j = digit_char k \<longleftrightarrow> j = k"
  by (metis digit_val_digit_char)

lemma digit_literals: "CHR ''0'' = digit_char 0" "CHR ''1'' = digit_char 1"
  by code_simp+

lemma IP_String_192: "IP_String [192, 168, 0, d] = ''192.168.0.'' @ appendDecimal d"
proof -
  have "appendDecimal 192 = ''192''" "appendDecimal 168 = ''168''" "appendDecimal 0 = ''0''"
    by code_simp+
  then show ?thesis by simp
qed

lemma zero_le_appendDecimal: "''0'' \<le> appendDecimal d"
proof -
  have "unat d < 256" using unsigned_less [of d, where ?'a = nat] by simp
  then have "unat d div 100 < 10" "unat d div 10 mod 10 < 10" "unat d mod 10 < 10" by auto
  then show ?thesis
    by (auto simp: appendDecimal_def Let_def digit_literals digit_char_less digit_char_eq)
qed

lemma hundred_le_appendDecimal:
  assumes "4 \<le> unat d" "unat d mod 4 = 0"
  shows "''100'' \<le> appendDecimal d"
proof -
  let ?n = "unat d"
  have n: "?n < 256" using unsigned_less [of d, where ?'a = nat] by simp
  have r: "?n div 100 < 10" "?n div 10 mod 10 < 10" "?n mod 10 < 10" using n by auto
  have ne: "?n \<noteq> 10" using assms(2) by auto
  consider "?n < 10" | "10 \<le> ?n" "?n < 100" | "100 \<le> ?n" by linarith
  then show ?thesis
  proof cases
    case 1
    then show ?thesis using assms(1)
      by (simp add: appendDecimal_def Let_def digit_literals digit_char_less digit_char_eq)
  next
    case 2
    then have "?n div 10 mod 10 = ?n div 10" "1 \<le> ?n div 10" by auto
    moreover have "?n div 10 = 1 \<Longrightarrow> 0 < ?n mod 10" using ne 2 by presburger
    ultimately show ?thesis using 2 r
      by (auto simp: appendDecimal_def Let_def digit_literals digit_char_less digit_char_eq)
  next
    case 3
    then have "1 \<le> ?n div 100" by simp
    then show ?thesis using 3 r
      by (auto simp: appendDecimal_def Let_def digit_literals digit_char_less digit_char_eq)
  qed
qed

lemma NewCIDRGuardian_pool_24: "NewCIDRGuardian Live [''192.168.0.0/24''] = Some (Inr pool_24)"
proof -
  let ?g = "\<lparr>storage = NewMemoryIPStorage, managedCIDRs = Map.empty\<rparr>"
  have p: "ParseCIDR ''192.168.0.0/24''
             = Some ([192, 168, 0, 0], \<lparr>net_IP = [192, 168, 0, 0], net_Mask = CIDRMask 24 32\<rparr>)"
    by code_simp
  have n: "(1::nat) \<le> 24" "(24::nat) \<le> 32" by simp_all
  have m: "managedCIDRs ?g ''192.168.0.0/24'' = None" by simp
  have "{s. \<exists>a. Contains \<lparr>net_IP = [192, 168, 0, 0], net_Mask = CIDRMask 24 32\<rparr> a
               \<and> s = IP_String a \<and> allocated (storage ?g) s = None}
          = {s. \<exists>a. Contains \<lparr>net_IP = [192, 168, 0, 0], net_Mask = CIDRMask 24 32\<rparr> a
               \<and> s = IP_String a}"
    by (simp add: NewMemoryIPStorage_def)
  also have "\<dots> = block_strings [192, 168, 0, 0] 256"
    unfolding Contains_strings [OF p n] by simp
  finally have "AddCIDR Live ''192.168.0.0/24'' ''initial CIDR'' ?g = Some (None, pool_24)"
    using AddCIDR_Live [OF p n m, of "''initial CIDR''"]
    by (simp add: pool_24_def NewMemoryIPStorage_def)
  then show ?thesis by (simp add: NewCIDRGuardian_def ctx_Err_def)
qed

lemma str_192: "i < 256 \<Longrightarrow>
    IP_String (ip_of_val (3232235520 + i)) = ''192.168.0.'' @ appendDecimal (of_nat i)"
  by (simp only: ip_of_val_192 IP_String_192)

lemma first_allocation:
  assumes "available (storage g) = block_strings [192, 168, 0, 0] 256"
  shows "AllocateCIDR Live 30 d g
           = (Inr ''192.168.0.0/30'',
              g\<lparr>storage := (storage g)\<lparr>
                  available := block_strings [192, 168, 0, 0] 256 - block_strings [192, 168, 0, 0] 4,
                  allocated := (allocated (storage g))
                     (''192.168.0.0'' \<mapsto> ''192.168.0.0/30 - '' @ d)\<rparr>\<rparr>)"
proof -
  let ?a = "[192, 168, 0, 0] :: ip"
  let ?S = "block_strings ?a 256"
  have top: "ip_val ?a + 256 \<le> 2 ^ 32" by simp
  have s0: "IP_String ?a = ''192.168.0.0''" by code_simp
  have p: "ParseIP ''192.168.0.0'' = Some ?a" by code_simp
  have al: "is_aligned_start 30 ''192.168.0.0''" by code_simp
  have it: "Itoa 30 = ''30''" by code_simp
  have cap: "2 ^ nat (32 - 30) \<le> card (available (storage g))"
    using card_block_strings [OF top] by (simp add: assms)
  have mem: "''192.168.0.0'' \<in> ?S"
    unfolding block_strings_interval using s0 ip_of_val_ip_val [of ?a]
    by (auto simp: image_iff intro!: bexI [of _ "ip_val ?a"])
  have least: "\<forall>s \<in> ?S. is_aligned_start 30 s \<longrightarrow> ''192.168.0.0'' \<le> s"
  proof (intro ballI impI)
    fix s assume "s \<in> ?S"
    then obtain v where v: "3232235520 \<le> v" "v < 3232235520 + 256" "s = IP_String (ip_of_val v)"
      by (auto simp: block_strings_interval)
    define i where "i = v - 3232235520"
    have i: "i < 256" "v = 3232235520 + i" using v by (auto simp: i_def)
    have "s = ''192.168.0.'' @ appendDecimal (of_nat i)"
      using v(3) str_192 [OF i(1)] by (simp only: i(2))
    moreover have "''192.168.0.0'' = ''192.168.0.'' @ ''0''" by simp
    ultimately show "''192.168.0.0'' \<le> s"
      by (simp only: append_le_append zero_le_appendDecimal)
  qed
  from candidates_least [OF _ mem al least] obtain rest where
    cand: "filter (is_aligned_start 30) (sorted_list_of_set (available (storage g)))
             = ''192.168.0.0'' # rest"
    by (auto simp: assms)
  have sub: "block_strings ?a 4 \<subseteq> ?S"
    by (auto simp: block_strings_interval)
  show ?thesis
    using AllocateCIDR_Live [OF _ _ cap cand p, of d] sub
    by (simp add: assms it)
qed

lemma aligned_30_mod4:
  assumes "is_aligned_start 30 (IP_String a)" "length a = 4"
  shows "ip_val a mod 4 = 0"
proof -
  from is_aligned_start_D [OF assms(1)] obtain b where
    b: "ParseIP (IP_String a) = Some b" "IP_Mask b (CIDRMask (nat 30) 32) = b" by blast
  have "b = a" using b(1) ParseIP_IP_String [OF assms(2)] by simp
  then have "ip_val (IP_Mask a (CIDRMask 30 32)) = ip_val a" using b(2) by simp
  then have "ip_val a div 4 * 4 = ip_val a"
    using IP_Mask_val [OF assms(2), of 30] by simp
  then show ?thesis by presburger
qed

lemma second_allocation:
  assumes "available (storage g)
             = block_strings [192, 168, 0, 0] 256 - block_strings [192, 168, 0, 0] 4"
  shows "fst (AllocateCIDR Live 30 d g) = Inr ''192.168.0.100/30''"
proof -
  let ?a = "[192, 168, 0, 0] :: ip"
  let ?b = "[192, 168, 0, 100] :: ip"
  let ?f = "\<lambda>v. IP_String (ip_of_val v)"
  let ?S1 = "?f ` {3232235520 + 4 ..< 3232235520 + 256}"
  have top: "ip_val ?a + 256 \<le> 2 ^ 32" by simp
  have S1: "available (storage g) = ?S1"
    using block_strings_diff [OF top, of 4] by (simp add: assms)
  have fin: "finite ?S1" by simp
  have s0: "IP_String ?b = ''192.168.0.100''" by code_simp
  have p: "ParseIP ''192.168.0.100'' = Some ?b" by code_simp
  have al: "is_aligned_start 30 ''192.168.0.100''" by code_simp
  have it: "Itoa 30 = ''30''" by code_simp
  have vb: "ip_val ?b = 3232235520 + 100" by simp
  have "inj_on ?f {3232235520 + 4 ..< 3232235520 + 256}"
    by (intro inj_on_subset [OF str_inj_on]) auto
  then have "card ?S1 = 252" by (simp add: card_image)
  then have cap: "2 ^ nat (32 - 30) \<le> card (available (storage g))"
    by (simp add: S1)
  have mem: "''192.168.0.100'' \<in> ?S1"
    using s0 ip_of_val_ip_val [of ?b]
    by (auto simp: image_iff intro!: bexI [of _ "3232235520 + 100"])
  have least: "\<forall>s \<in> ?S1. is_aligned_start 30 s \<longrightarrow> ''192.168.0.100'' \<le> s"
  proof (intro ballI impI)
    fix s assume "s \<in> ?S1" and a30: "is_aligned_start 30 s"
    then obtain v where v: "3232235520 + 4 \<le> v" "v < 3232235520 + 256" "s = ?f v"
      by auto
    define i where "i = v - 3232235520"
    have i: "i < 256" "4 \<le> i" "v = 3232235520 + i" using v by (auto simp: i_def)
    have un: "unat (of_nat i :: 8 word) = i" using i(1) by (simp add: unat_of_nat)
    have sv: "s = IP_String [192, 168, 0, of_nat i]"
      using v(3) ip_of_val_192 [OF i(1)] by (simp only: i(3))
    have "ip_val [192, 168, 0, of_nat i :: 8 word] mod 4 = 0"
      using a30 unfolding sv by (rule aligned_30_mod4) simp
    then have "i mod 4 = 0" by (simp add: un) presburger
    then have "''100'' \<le> appendDecimal (of_nat i :: 8 word)"
      using i(2) by (intro hundred_le_appendDecimal) (simp_all add: un)
    moreover have "s = ''192.168.0.'' @ appendDecimal (of_nat i)"
      unfolding sv by (rule IP_String_192)
    moreover have "''192.168.0.100'' = ''192.168.0.'' @ ''100''" by simp
    ultimately show "''192.168.0.100'' \<le> s"
      by (simp only: append_le_append)
  qed
  from candidates_least [OF fin mem al least] obtain rest where
    cand: "filter (is_aligned_start 30) (sorted_list_of_set (available (storage g)))
             = ''192.168.0.100'' # rest"
    by (auto simp: S1)
  have sub: "block_strings ?b (2 ^ nat (32 - 30)) \<subseteq> available (storage g)"
    unfolding S1 block_strings_interval vb by auto
  show ?thesis
    using AllocateCIDR_Live [OF _ _ cap cand p, of d] sub
    by (simp add: it)
qed

section \<open>Two /30 allocations from a /24 pool\<close>

text \<open>
  Claim C1, as amended. Starting from the pool that manages exactly \<open>192.168.0.0/24\<close> with
  all 256 addresses available, with a live context, \<open>AllocateCIDR 30 x\<close> returns
  \<open>192.168.0.0/30\<close>, and a second call \<open>AllocateCIDR 30 y\<close> right after it returns
  \<open>192.168.0.100/30\<close>: the start is the aligned available address whose text is least in
  the bytewise order of strings.
\<close>

theorem pool_24_allocations:
  "NewCIDRGuardian Live [''192.168.0.0/24''] = Some (Inr pool_24)
   \<and> fst (AllocateCIDR Live 30 ''x'' pool_24) = Inr ''192.168.0.0/30''
   \<and> fst (AllocateCIDR Live 30 ''y'' (snd (AllocateCIDR Live 30 ''x'' pool_24)))
       = Inr ''192.168.0.100/30''"
proof -
  have a: "available (storage pool_24) = block_strings [192, 168, 0, 0] 256"
    by (simp add: pool_24_def)
  note f = first_allocation [OF a, of "''x''"]
  have "available (storage (snd (AllocateCIDR Live 30 ''x'' pool_24)))
          = block_strings [192, 168, 0, 0] 256 - block_strings [192, 168, 0, 0] 4"
    by (simp add: f)
  from second_allocation [OF this, of "''y''"] f NewCIDRGuardian_pool_24
  show ?thesis by simp
qed

text \<open>Claim C1 as stated fails: the second call does not return \<open>192.168.0.4/30\<close>.\<close>

theorem pool_24_second_allocation_counterexample:
  "fst (AllocateCIDR Live 30 ''y'' (snd (AllocateCIDR Live 30 ''x'' pool_24)))
     \<noteq> Inr ''192.168.0.4/30''"
proof -
  have a: "available (storage pool_24) = block_strings [192, 168, 0, 0] 256"
    by (simp add: pool_24_def)
  note f = first_allocation [OF a, of "''x''"]
  have "available (storage (snd (AllocateCIDR Live 30 ''x'' pool_24)))
          = block_strings [192, 168, 0, 0] 256 - block_strings [192, 168, 0, 0] 4"
    by (simp add: f)
  from second_allocation [OF this, of "''y''"] show ?thesis by simp
qed

end
